theory Spec2Isabelle
  imports Complex_Main
begin

section \<open>Rule expressions and JavaScript value conversions\<close>

text \<open>
  A rule expression is a parsed JSON value (\<^verbatim>\<open>JsonLogicRule\<close>). An object is the
  list of its entries in the order \<^verbatim>\<open>Object.keys\<close> enumerates them, so the head of
  the list is \<^verbatim>\<open>keys[0]\<close>. A number is an integer, printed in decimal
  (\<^verbatim>\<open>String(18)\<close> is \<^verbatim>\<open>18\<close>), or one of the four numbers that
  \<^verbatim>\<open>JSON.stringify\<close> does not give back: the two infinities (a literal such as
  \<^verbatim>\<open>1e999\<close> parses to \<^verbatim>\<open>Infinity\<close>), \<^verbatim>\<open>NaN\<close> and negative zero. Other fractions
  and the exponent notation of very large numbers are outside this model; the round
  trip through JSON text gives them back as they are. A string is a list of
  characters, one per code unit. The value \<^verbatim>\<open>undefined\<close> is no JSON value: where the
  source reads past the end of an array, the model has \<open>None\<close>.
\<close>

datatype special = PosInfinity | NegInfinity | NotANumber | NegZero

datatype json =
    JNull
  | JBool bool
  | JNum int
  | JSpecial special
  | JStr string
  | JArr "json list"
  | JObj "(string \<times> json) list"

definition digitChar :: "nat \<Rightarrow> char" where
  "digitChar d = ''0123456789'' ! (d mod 10)"

fun showNat :: "nat \<Rightarrow> string" where
  "showNat n = (if n < 10 then [digitChar n] else showNat (n div 10) @ [digitChar (n mod 10)])"

declare showNat.simps [simp del]

definition showInt :: "int \<Rightarrow> string" where
  "showInt i = (if i < 0 then CHR ''-'' # showNat (nat (- i)) else showNat (nat i))"

definition showBool :: "bool \<Rightarrow> string" where
  "showBool b = (if b then ''true'' else ''false'')"

text \<open>\<^verbatim>\<open>String(n)\<close> of a number that is no integer of the model.\<close>

definition showSpecial :: "special \<Rightarrow> string" where
  "showSpecial n =
     (case n of
        PosInfinity \<Rightarrow> ''Infinity''
      | NegInfinity \<Rightarrow> ''-Infinity''
      | NotANumber \<Rightarrow> ''NaN''
      | NegZero \<Rightarrow> ''0'')"

text \<open>\<^verbatim>\<open>Array.prototype.join\<close>.\<close>

fun join :: "string \<Rightarrow> string list \<Rightarrow> string" where
  "join sep [] = []"
| "join sep [s] = s"
| "join sep (s # t # ss) = s @ sep @ join sep (t # ss)"

text \<open>
  \<^verbatim>\<open>String(v)\<close> and the conversion inside a template literal. An array prints its
  elements joined by commas, with \<^verbatim>\<open>null\<close> elements printed as nothing; any
  other object prints as \<^verbatim>\<open>[object Object]\<close>.
\<close>

fun jsString :: "json \<Rightarrow> string" where
  "jsString JNull = ''null''"
| "jsString (JBool b) = showBool b"
| "jsString (JNum n) = showInt n"
| "jsString (JSpecial n) = showSpecial n"
| "jsString (JStr s) = s"
| "jsString (JArr xs) = join '','' (map (\<lambda>x. if x = JNull then [] else jsString x) xs)"
| "jsString (JObj kvs) = ''[object Object]''"

text \<open>The same conversion of a value that may be \<^verbatim>\<open>undefined\<close>.\<close>

definition jsStringU :: "json option \<Rightarrow> string" where
  "jsStringU v = (case v of None \<Rightarrow> ''undefined'' | Some j \<Rightarrow> jsString j)"

text \<open>\<^verbatim>\<open>xs[i]\<close>: \<open>None\<close> is \<^verbatim>\<open>undefined\<close>.\<close>

definition nth_opt :: "'a list \<Rightarrow> nat \<Rightarrow> 'a option" where
  "nth_opt xs i = (if i < length xs then Some (xs ! i) else None)"

text \<open>\<^verbatim>\<open>Array.isArray(v)\<close>, and \<^verbatim>\<open>v.length\<close> of an array (0 for any other value).\<close>

fun isArray :: "json \<Rightarrow> bool" where
  "isArray (JArr xs) = True"
| "isArray v = False"

fun arrayLength :: "json \<Rightarrow> nat" where
  "arrayLength (JArr xs) = length xs"
| "arrayLength v = 0"

text \<open>\<^verbatim>\<open>JSON.stringify\<close> of a value, without indentation: a number that is not finite
  is written as \<^verbatim>\<open>null\<close>, negative zero as \<^verbatim>\<open>0\<close>.\<close>

definition hexDigit :: "nat \<Rightarrow> char" where
  "hexDigit d = ''0123456789abcdef'' ! (d mod 16)"

definition quoteChar :: "char \<Rightarrow> string" where
  "quoteChar c =
     (if c = CHR 0x22 then [CHR 0x5C, CHR 0x22]
      else if c = CHR 0x5C then [CHR 0x5C, CHR 0x5C]
      else if c = CHR 0x08 then [CHR 0x5C, CHR ''b'']
      else if c = CHR 0x0C then [CHR 0x5C, CHR ''f'']
      else if c = CHR 0x0A then [CHR 0x5C, CHR ''n'']
      else if c = CHR 0x0D then [CHR 0x5C, CHR ''r'']
      else if c = CHR 0x09 then [CHR 0x5C, CHR ''t'']
      else if of_char c < (32::nat)
        then [CHR 0x5C, CHR ''u'', CHR ''0'', CHR ''0'',
              hexDigit (of_char c div 16), hexDigit (of_char c mod 16)]
      else [c])"

definition quoteString :: "string \<Rightarrow> string" where
  "quoteString s = [CHR 0x22] @ concat (map quoteChar s) @ [CHR 0x22]"

fun jsonStringify :: "json \<Rightarrow> string" where
  "jsonStringify JNull = ''null''"
| "jsonStringify (JBool b) = showBool b"
| "jsonStringify (JNum n) = showInt n"
| "jsonStringify (JSpecial n) = (if n = NegZero then ''0'' else ''null'')"
| "jsonStringify (JStr s) = quoteString s"
| "jsonStringify (JArr xs) = ''['' @ join '','' (map jsonStringify xs) @ '']''"
| "jsonStringify (JObj kvs) =
     ''{'' @ join '','' (map (\<lambda>(k, v). quoteString k @ '':'' @ jsonStringify v) kvs) @ ''}''"

section \<open>Label Formatter\<close>

text \<open>\<^verbatim>\<open>`"${s}"`\<close>: the text between two double quotes.\<close>

definition dq :: "string \<Rightarrow> string" where
  "dq s = [CHR 0x22] @ s @ [CHR 0x22]"

definition itemsLabel :: "nat \<Rightarrow> string" where
  "itemsLabel n = ''['' @ showNat n @ '' items]''"

definition comparisonOps :: "string list" where
  "comparisonOps = [''=='', ''==='', ''!='', ''!=='', ''>'', ''>='', ''<'', ''<='']"

definition arithmeticOps :: "string list" where
  "arithmeticOps = [''+'', ''-'', ''*'', ''/'', ''%'']"

definition opNames :: "string \<Rightarrow> string option" where
  "opNames = map_of [(''map'', ''MAP''), (''filter'', ''FILTER''), (''reduce'', ''REDUCE''),
                     (''all'', ''ALL''), (''some'', ''SOME''), (''none'', ''NONE'')]"

text \<open>
  \<^verbatim>\<open>buildLabel(rule, compact)\<close> of the tree parser. The branches keep the order of
  the source; a comparison, \<^verbatim>\<open>and\<close>, \<^verbatim>\<open>or\<close>, \<^verbatim>\<open>in\<close> or arithmetic
  operation whose operands do not have the expected shape falls through to the
  branches below it, as in the source.
\<close>

fun buildLabel :: "json \<Rightarrow> bool \<Rightarrow> string" where
  "buildLabel JNull cpt = ''null''"
| "buildLabel (JStr s) cpt = dq s"
| "buildLabel (JNum n) cpt = showInt n"
| "buildLabel (JBool b) cpt = showBool b"
| "buildLabel (JArr xs) cpt =
     (if cpt \<or> length xs > 3 then itemsLabel (length xs)
      else ''['' @ join '', '' (map (\<lambda>r. buildLabel r True) xs) @ '']'')"
| "buildLabel (JObj []) cpt = ''{}''"
| "buildLabel (JObj ((operator, operands) # rest)) cpt =
     (if operator = ''var'' then
        (case operands of
           JStr s \<Rightarrow> if s = [] then ''(item)'' else dq s
         | JArr xs \<Rightarrow> if nth_opt xs 0 = Some (JStr []) then ''(item)'' else dq (jsStringU (nth_opt xs 0))
         | _ \<Rightarrow> ''data'')
      else if operator \<in> set comparisonOps \<and> isArray operands \<and> arrayLength operands \<ge> 2 then
        (case operands of
           JArr (l # r # others) \<Rightarrow> buildLabel l True @ '' '' @ operator @ '' '' @ buildLabel r True
         | _ \<Rightarrow> [])
      else if operator = ''and'' \<and> isArray operands then
        (case operands of
           JArr xs \<Rightarrow> join '' AND '' (map (\<lambda>o'. buildLabel o' True) xs)
         | _ \<Rightarrow> [])
      else if operator = ''or'' \<and> isArray operands then
        (case operands of
           JArr xs \<Rightarrow> join '' OR '' (map (\<lambda>o'. buildLabel o' True) xs)
         | _ \<Rightarrow> [])
      else if operator = ''!'' \<or> operator = ''!!'' then
        (if operator = ''!'' then ''NOT '' else ''BOOL '') @
        (case operands of
           JArr [] \<Rightarrow> ''undefined''
         | JArr (inner # others) \<Rightarrow> buildLabel inner True
         | inner \<Rightarrow> buildLabel inner True)
      else if operator = ''in'' \<and> isArray operands \<and> arrayLength operands \<ge> 2 then
        (case operands of
           JArr (needle # haystack # others) \<Rightarrow>
             buildLabel needle True @ '' in '' @
             (case haystack of JArr hs \<Rightarrow> itemsLabel (length hs) | _ \<Rightarrow> buildLabel haystack True)
         | _ \<Rightarrow> [])
      else if operator \<in> set arithmeticOps \<and> isArray operands then
        (case operands of
           JArr xs \<Rightarrow> join ('' '' @ operator @ '' '') (map (\<lambda>o'. buildLabel o' True) xs)
         | _ \<Rightarrow> [])
      else (case opNames operator of
              Some nm \<Rightarrow> nm @ ''(...)''
            | None \<Rightarrow> operator @ ''(...)''))"
| "buildLabel (JSpecial n) cpt = showSpecial n"

text \<open>\<^verbatim>\<open>buildLabel\<close> applied to a value that may be \<^verbatim>\<open>undefined\<close>: the source then
  leaves through \<^verbatim>\<open>typeof rule !== 'object'\<close> with \<^verbatim>\<open>String(rule)\<close>.\<close>

definition buildLabelU :: "json option \<Rightarrow> bool \<Rightarrow> string" where
  "buildLabelU v cpt = (case v of None \<Rightarrow> ''undefined'' | Some r \<Rightarrow> buildLabel r cpt)"

section \<open>Rendering tree\<close>

datatype NodeType = Operator | Variable | Value | Array | Object

text \<open>
  A \<^verbatim>\<open>TreeNode\<close> is its fields and its children. An optional field that is absent
  is \<open>None\<close>. The layout fields are rationals: the layout only adds, compares and
  halves them. \<open>n_subtreeWidth\<close> is the field the layout adds (\<^verbatim>\<open>NodeWithWidth\<close>).
\<close>

record NodeData =
  n_id :: string
  n_type :: NodeType
  n_label :: string
  n_value :: "json option"
  n_operator :: "string option"
  n_parent :: "string option"
  n_depth :: int
  n_path :: "string list"
  n_x :: "rat option"
  n_y :: "rat option"
  n_width :: "rat option"
  n_height :: "rat option"
  n_expanded :: bool
  n_highlighted :: bool
  n_selected :: bool
  n_evaluationResult :: "json option"
  n_isActive :: "bool option"
  n_subtreeWidth :: "rat option"

datatype TreeNode = TreeNode (fieldsOf: NodeData) (children: "TreeNode list")

text \<open>The object literal the parser writes for a new node: no layout, not highlighted,
  not selected.\<close>

definition nodeLiteral ::
  "string \<Rightarrow> NodeType \<Rightarrow> string \<Rightarrow> string option \<Rightarrow> json option \<Rightarrow> string option \<Rightarrow> int \<Rightarrow>
   string list \<Rightarrow> bool \<Rightarrow> NodeData" where
  "nodeLiteral i ty lbl opr v par d p ex =
     \<lparr> n_id = i, n_type = ty, n_label = lbl, n_value = v, n_operator = opr, n_parent = par,
       n_depth = d, n_path = p, n_x = None, n_y = None, n_width = None, n_height = None,
       n_expanded = ex, n_highlighted = False, n_selected = False,
       n_evaluationResult = None, n_isActive = None, n_subtreeWidth = None \<rparr>"

section \<open>Tree Builder\<close>

text \<open>
  The module-level \<^verbatim>\<open>nodeIdCounter\<close> is threaded through every function: each takes
  the counter and returns the new one. \<^verbatim>\<open>generateNodeId\<close> increments, then prints.
\<close>

definition generateNodeId :: "nat \<Rightarrow> string \<times> nat" where
  "generateNodeId c = (''node-'' @ showNat (Suc c), Suc c)"

definition createValueNode ::
  "string \<Rightarrow> json option \<Rightarrow> string option \<Rightarrow> int \<Rightarrow> string list \<Rightarrow> nat \<Rightarrow> TreeNode \<times> nat" where
  "createValueNode lbl v parentId d p c =
     (let (i, c1) = generateNodeId c
      in (TreeNode (nodeLiteral i Value lbl None v parentId d p True) [], c1))"

definition orData :: "string \<Rightarrow> string" where
  "orData s = (if s = [] then ''data'' else s)"

definition createVariableNode ::
  "json \<Rightarrow> string option \<Rightarrow> int \<Rightarrow> string list \<Rightarrow> nat \<Rightarrow> TreeNode \<times> nat" where
  "createVariableNode operands parentId d p c =
     (let varName = (case operands of
                       JStr s \<Rightarrow> orData s
                     | JNum k \<Rightarrow> showInt k
                     | JSpecial k \<Rightarrow> showSpecial k
                     | JArr xs \<Rightarrow> orData (jsStringU (nth_opt xs 0))
                     | _ \<Rightarrow> ''data'');
          defaultValue = (case operands of JArr xs \<Rightarrow> nth_opt xs 1 | _ \<Rightarrow> None);
          displayLabel = (if varName = [] then ''(current item)'' else ''$'' @ varName);
          (i, c1) = generateNodeId c;
          node = nodeLiteral i Variable displayLabel None (Some (JObj [(''var'', operands)]))
                   parentId d p True
      in case defaultValue of
           None \<Rightarrow> (TreeNode node [], c1)
         | Some dv \<Rightarrow>
             (let (child, c2) =
                    createValueNode (''default: '' @ jsonStringify dv) (Some dv) (Some i) (d + 1)
                      (p @ [''var'', ''[1]'']) c1
              in (TreeNode node [child], c2)))"

text \<open>\<^verbatim>\<open>isSimpleValue\<close>, and the filter of the operands that become children.\<close>

fun isSimpleValue :: "json \<Rightarrow> bool" where
  "isSimpleValue (JArr xs) = False"
| "isSimpleValue (JObj kvs) = (length kvs = 1 \<and> nth_opt (map fst kvs) 0 = Some ''var'')"
| "isSimpleValue v = True"

fun isObjectType :: "json \<Rightarrow> bool" where
  "isObjectType (JArr xs) = True"
| "isObjectType (JObj kvs) = True"
| "isObjectType v = False"

definition isComplex :: "json \<Rightarrow> bool" where
  "isComplex op' = (isObjectType op' \<and> \<not> isSimpleValue op')"

fun elems :: "json \<Rightarrow> json list" where
  "elems (JArr xs) = xs"
| "elems v = []"

text \<open>\<^verbatim>\<open>Object.keys(v)[0]\<close> of a value that is an object and not an array.\<close>

fun firstKey :: "json \<Rightarrow> string option" where
  "firstKey (JObj ((k, v) # rest)) = Some k"
| "firstKey v = None"

fun isPlainObject :: "json \<Rightarrow> bool" where
  "isPlainObject (JObj kvs) = True"
| "isPlainObject v = False"

text \<open>
  The five mutually recursive functions of the parser. The first argument bounds the
  depth of the call stack: every call takes one unit, and a call that has none left
  does not return (\<open>None\<close>). A recursion that never ends in the source is \<open>None\<close> for
  every bound. \<open>parseItems\<close> is the \<^verbatim>\<open>map\<close> over the children, with the index.
\<close>

function (sequential) parseRuleToTree ::
      "nat \<Rightarrow> json \<Rightarrow> string option \<Rightarrow> int \<Rightarrow> string list \<Rightarrow> nat \<Rightarrow> (TreeNode \<times> nat) option"
  and parseItems ::
      "nat \<Rightarrow> json list \<Rightarrow> nat \<Rightarrow> string \<Rightarrow> int \<Rightarrow> string list \<Rightarrow> nat \<Rightarrow> (TreeNode list \<times> nat) option"
  and createIfNode ::
      "nat \<Rightarrow> json list \<Rightarrow> string option \<Rightarrow> int \<Rightarrow> string list \<Rightarrow> json \<Rightarrow> nat \<Rightarrow>
       (TreeNode \<times> nat) option"
  and createChainedIfNode ::
      "nat \<Rightarrow> json list \<Rightarrow> string option \<Rightarrow> int \<Rightarrow> string list \<Rightarrow> json \<Rightarrow> nat \<Rightarrow>
       (TreeNode \<times> nat) option"
  and createResultNode ::
      "nat \<Rightarrow> json option \<Rightarrow> string \<Rightarrow> int \<Rightarrow> string list \<Rightarrow> bool \<Rightarrow> nat \<Rightarrow>
       (TreeNode \<times> nat) option"
where
  "parseRuleToTree 0 rule parentId d p c0 = None"
| "parseRuleToTree (Suc n) rule parentId d p c0 =
     (let c = (if d = 0 then 0 else c0) in
      case rule of
        JNull \<Rightarrow> Some (createValueNode ''null'' (Some rule) parentId d p c)
      | JStr s \<Rightarrow> Some (createValueNode (dq s) (Some rule) parentId d p c)
      | JNum k \<Rightarrow> Some (createValueNode (showInt k) (Some rule) parentId d p c)
      | JSpecial k \<Rightarrow> Some (createValueNode (showSpecial k) (Some rule) parentId d p c)
      | JBool b \<Rightarrow> Some (createValueNode (showBool b) (Some rule) parentId d p c)
      | JArr xs \<Rightarrow>
          (let (i, c1) = generateNodeId c;
               node = nodeLiteral i Array (itemsLabel (length xs)) None (Some rule) parentId d p
                        (d < 3)
           in case parseItems n xs 0 i (d + 1) p c1 of
                None \<Rightarrow> None
              | Some (cs, c2) \<Rightarrow> Some (TreeNode node cs, c2))
      | JObj [] \<Rightarrow> Some (createValueNode ''{}'' (Some rule) parentId d p c)
      | JObj ((operator, operands) # rest) \<Rightarrow>
          if operator = ''var'' then Some (createVariableNode operands parentId d p c)
          else if (operator = ''if'' \<or> operator = ''?:'') \<and> isArray operands
            then createIfNode n (elems operands) parentId d p rule c
          else
            (let lbl = buildLabel rule False;
                 (i, c1) = generateNodeId c;
                 node = nodeLiteral i Operator lbl (Some operator) (Some rule) parentId d p (d < 4)
             in if isArray operands then
                  (if list_ex isComplex (elems operands) then
                     (case parseItems n (filter isComplex (elems operands)) 0 i (d + 1)
                             (p @ [operator]) c1 of
                        None \<Rightarrow> None
                      | Some (cs, c2) \<Rightarrow> Some (TreeNode node cs, c2))
                   else Some (TreeNode node [], c1))
                else if isPlainObject operands then
                  (case parseRuleToTree n operands (Some i) (d + 1) (p @ [operator]) c1 of
                     None \<Rightarrow> None
                   | Some (child, c2) \<Rightarrow> Some (TreeNode node [child], c2))
                else Some (TreeNode node [], c1)))"
| "parseItems n [] index parentId d prefix c = Some ([], c)"
| "parseItems n (item # items) index parentId d prefix c =
     (case parseRuleToTree n item (Some parentId) d (prefix @ [''['' @ showNat index @ '']'']) c of
        None \<Rightarrow> None
      | Some (t, c1) \<Rightarrow>
          (case parseItems n items (Suc index) parentId d prefix c1 of
             None \<Rightarrow> None
           | Some (ts, c2) \<Rightarrow> Some (t # ts, c2)))"
| "createIfNode 0 operands parentId d p rule c = None"
| "createIfNode (Suc n) operands parentId d p rule c =
     (if length operands < 2 then Some (createValueNode ''IF ?'' (Some rule) parentId d p c)
      else if length operands > 3 then createChainedIfNode n operands parentId d p rule c
      else
        (let conditionLabel = buildLabelU (nth_opt operands 0) False;
             (i, c1) = generateNodeId c;
             node = nodeLiteral i Operator conditionLabel (Some ''if'') (Some rule) parentId d p True
         in case createResultNode n (nth_opt operands 1) i (d + 1) (p @ [''then'']) True c1 of
              None \<Rightarrow> None
            | Some (trueNode, c2) \<Rightarrow>
                if length operands > 2 then
                  (case (case nth_opt operands 2 of
                           Some elseResult \<Rightarrow>
                             if isPlainObject elseResult \<and>
                                (firstKey elseResult = Some ''if'' \<or> firstKey elseResult = Some ''?:'')
                             then parseRuleToTree n elseResult (Some i) (d + 1) (p @ [''else'']) c2
                             else createResultNode n (Some elseResult) i (d + 1) (p @ [''else''])
                                    False c2
                         | None \<Rightarrow> createResultNode n None i (d + 1) (p @ [''else'']) False c2) of
                     None \<Rightarrow> None
                   | Some (falseNode, c3) \<Rightarrow> Some (TreeNode node [trueNode, falseNode], c3))
                else Some (TreeNode node [trueNode], c2)))"
| "createChainedIfNode 0 operands parentId d p rule c = None"
| "createChainedIfNode (Suc n) operands parentId d p rule c =
     (let conditionLabel = buildLabelU (nth_opt operands 0) False;
          (i, c1) = generateNodeId c;
          node = nodeLiteral i Operator conditionLabel (Some ''if'') (Some rule) parentId d p True
      in case createResultNode n (nth_opt operands 1) i (d + 1) (p @ [''then'']) True c1 of
           None \<Rightarrow> None
         | Some (trueNode, c2) \<Rightarrow>
             (let remainingOperands = drop 2 operands
              in case (if length remainingOperands = 1
                       then createResultNode n (nth_opt remainingOperands 0) i (d + 1)
                              (p @ [''else'']) False c2
                       else createChainedIfNode n remainingOperands (Some i) (d + 1)
                              (p @ [''else'']) rule c2) of
                   None \<Rightarrow> None
                 | Some (falseNode, c3) \<Rightarrow> Some (TreeNode node [trueNode, falseNode], c3)))"
| "createResultNode 0 result parentId d p isTrueBranch c = None"
| "createResultNode (Suc n) result parentId d p isTrueBranch c =
     (let leaf = (\<lambda>lbl ty.
            (let (i, c1) = generateNodeId c
             in Some (TreeNode (nodeLiteral i ty lbl
                        (Some (if isTrueBranch then ''true_branch'' else ''false_branch''))
                        result (Some parentId) d p True) [], c1)))
      in case result of
           None \<Rightarrow> leaf ''undefined'' Value
         | Some JNull \<Rightarrow> leaf ''null'' Value
         | Some (JStr s) \<Rightarrow> leaf (dq s) Value
         | Some (JNum k) \<Rightarrow> leaf (showInt k) Value
         | Some (JSpecial k) \<Rightarrow> leaf (showSpecial k) Value
         | Some (JBool b) \<Rightarrow> leaf (showBool b) Value
         | Some (JObj kvs) \<Rightarrow>
             if firstKey (JObj kvs) = Some ''var'' then leaf (buildLabel (JObj kvs) False) Variable
             else parseRuleToTree n (JObj kvs) (Some parentId) d p c
         | Some (JArr xs) \<Rightarrow> leaf (itemsLabel (length xs)) Array)"
  by pat_completeness auto

termination
  by (relation "inv_image (less_than <*lex*> less_than)
        (\<lambda>x. case x of
           Inl (Inl (n, r)) \<Rightarrow> (n, 0)
         | Inl (Inr (n, items, r)) \<Rightarrow> (n, Suc (length items))
         | Inr (Inl (n, r)) \<Rightarrow> (n, 0)
         | Inr (Inr (Inl (n, r))) \<Rightarrow> (n, 0)
         | Inr (Inr (Inr (n, r))) \<Rightarrow> (n, 0))") auto

section \<open>Expansion toggles\<close>

text \<open>
  The toggles mutate a deep copy of the tree through references to its nodes. A
  reference into the copy is the list of child indices that leads from the root to
  the node; \<open>nodeAt\<close> reads through a reference and \<open>updateAt\<close> writes through it.
\<close>

fun nodeAt :: "TreeNode \<Rightarrow> nat list \<Rightarrow> TreeNode option" where
  "nodeAt t [] = Some t"
| "nodeAt (TreeNode d cs) (k # ks) = (if k < length cs then nodeAt (cs ! k) ks else None)"

fun updateAt :: "nat list \<Rightarrow> (NodeData \<Rightarrow> NodeData) \<Rightarrow> TreeNode \<Rightarrow> TreeNode" where
  "updateAt [] f (TreeNode d cs) = TreeNode (f d) cs"
| "updateAt (k # ks) f (TreeNode d cs) =
     (if k < length cs then TreeNode d (cs[k := updateAt ks f (cs ! k)]) else TreeNode d cs)"

text \<open>
  \<^verbatim>\<open>JSON.parse(JSON.stringify(v))\<close> of a value: the text has \<^verbatim>\<open>null\<close> for a number
  that is not finite and \<^verbatim>\<open>0\<close> for negative zero, and that is what is read back.
\<close>

fun jsonRoundTrip :: "json \<Rightarrow> json" where
  "jsonRoundTrip (JSpecial n) = (if n = NegZero then JNum 0 else JNull)"
| "jsonRoundTrip (JArr xs) = JArr (map jsonRoundTrip xs)"
| "jsonRoundTrip (JObj kvs) = JObj (map (\<lambda>(k, v). (k, jsonRoundTrip v)) kvs)"
| "jsonRoundTrip v = v"

text \<open>
  \<^verbatim>\<open>JSON.parse(JSON.stringify(root))\<close>: a new node for every node. The two fields of
  type \<^verbatim>\<open>unknown\<close>, \<^verbatim>\<open>value\<close> and \<^verbatim>\<open>evaluationResult\<close>, come back as their round trip.
  Every other field of the model is a string, a boolean, a finite number or an array
  of strings, which the round trip keeps; a field that is absent or \<^verbatim>\<open>undefined\<close> is
  absent in the copy and reads as \<^verbatim>\<open>undefined\<close> there too: it is \<open>None\<close> in both.
\<close>

definition cloneFields :: "NodeData \<Rightarrow> NodeData" where
  "cloneFields d =
     d\<lparr> n_value := map_option jsonRoundTrip (n_value d),
        n_evaluationResult := map_option jsonRoundTrip (n_evaluationResult d) \<rparr>"

fun jsonClone :: "TreeNode \<Rightarrow> TreeNode" where
  "jsonClone (TreeNode d cs) = TreeNode (cloneFields d) (map jsonClone cs)"

text \<open>\<^verbatim>\<open>flattenTree\<close>: the nodes in pre-order; \<open>flattenRefs\<close>: the references to them,
  in the same order.\<close>

fun flattenTree :: "TreeNode \<Rightarrow> TreeNode list" where
  "flattenTree (TreeNode d cs) = TreeNode d cs # concat (map flattenTree cs)"

fun flattenRefs :: "TreeNode \<Rightarrow> nat list list"
  and flattenRefsFrom :: "nat \<Rightarrow> TreeNode list \<Rightarrow> nat list list"
where
  "flattenRefs (TreeNode d cs) = [] # flattenRefsFrom 0 cs"
| "flattenRefsFrom k [] = []"
| "flattenRefsFrom k (c # cs) = map ((#) k) (flattenRefs c) @ flattenRefsFrom (Suc k) cs"

text \<open>\<^verbatim>\<open>findNodeById\<close> returns the reference to the first node in pre-order that has
  the id, \<open>None\<close> for \<^verbatim>\<open>null\<close>. \<open>findInChildren\<close> is its loop over the children.\<close>

fun findNodeById :: "TreeNode \<Rightarrow> string \<Rightarrow> nat list option"
  and findInChildren :: "TreeNode list \<Rightarrow> nat \<Rightarrow> string \<Rightarrow> nat list option"
where
  "findNodeById (TreeNode d cs) i = (if n_id d = i then Some [] else findInChildren cs 0 i)"
| "findInChildren [] k i = None"
| "findInChildren (c # cs) k i =
     (case findNodeById c i of
        Some ref \<Rightarrow> Some (k # ref)
      | None \<Rightarrow> findInChildren cs (Suc k) i)"

definition toggleNodeExpansion :: "TreeNode \<Rightarrow> string \<Rightarrow> TreeNode" where
  "toggleNodeExpansion tree nodeId =
     (let clone = jsonClone tree
      in case findNodeById clone nodeId of
           Some ref \<Rightarrow> updateAt ref (\<lambda>d. d\<lparr> n_expanded := \<not> n_expanded d \<rparr>) clone
         | None \<Rightarrow> clone)"

definition expandAllNodes :: "TreeNode \<Rightarrow> TreeNode" where
  "expandAllNodes tree =
     (let clone = jsonClone tree;
          refs = flattenRefs clone
      in fold (\<lambda>ref. updateAt ref (\<lambda>d. d\<lparr> n_expanded := True \<rparr>)) refs clone)"

definition collapseAllNodes :: "TreeNode \<Rightarrow> TreeNode" where
  "collapseAllNodes tree =
     (let clone = jsonClone tree;
          clone1 = updateAt [] (\<lambda>d. d\<lparr> n_expanded := True \<rparr>) clone;
          refs = flattenRefs clone1
      in fold (\<lambda>ref. updateAt ref (\<lambda>d. d\<lparr> n_expanded := False \<rparr>)) (drop 1 refs) clone1)"

section \<open>Layout Engine\<close>

text \<open>
  The layout computes with JavaScript numbers. Here they are rationals, which is
  exact for the sums, maxima and halves the layout forms as long as no coordinate
  leaves the range in which doubles hold such values exactly. The SVG path strings
  of the edges are not modelled.
\<close>

datatype Orientation = Horizontal | Vertical

record TreeConfig =
  nodeWidth :: rat
  nodeHeight :: rat
  horizontalSpacing :: rat
  verticalSpacing :: rat
  orientation :: Orientation

definition DEFAULT_CONFIG :: TreeConfig where
  "DEFAULT_CONFIG = \<lparr> nodeWidth = 180, nodeHeight = 44, horizontalSpacing = 24,
                      verticalSpacing = 50, orientation = Vertical \<rparr>"

text \<open>\<^verbatim>\<open>Partial<TreeConfig>\<close> and \<^verbatim>\<open>{ ...DEFAULT_CONFIG, ...config }\<close>.\<close>

record PartialTreeConfig =
  p_nodeWidth :: "rat option"
  p_nodeHeight :: "rat option"
  p_horizontalSpacing :: "rat option"
  p_verticalSpacing :: "rat option"
  p_orientation :: "Orientation option"

definition noConfig :: PartialTreeConfig where
  "noConfig = \<lparr> p_nodeWidth = None, p_nodeHeight = None, p_horizontalSpacing = None,
                p_verticalSpacing = None, p_orientation = None \<rparr>"

definition overDefault :: "'a option \<Rightarrow> 'a \<Rightarrow> 'a" where
  "overDefault v dflt = (case v of None \<Rightarrow> dflt | Some a \<Rightarrow> a)"

definition withDefaults :: "PartialTreeConfig \<Rightarrow> TreeConfig" where
  "withDefaults config =
     \<lparr> nodeWidth = overDefault (p_nodeWidth config) (nodeWidth DEFAULT_CONFIG),
       nodeHeight = overDefault (p_nodeHeight config) (nodeHeight DEFAULT_CONFIG),
       horizontalSpacing = overDefault (p_horizontalSpacing config) (horizontalSpacing DEFAULT_CONFIG),
       verticalSpacing = overDefault (p_verticalSpacing config) (verticalSpacing DEFAULT_CONFIG),
       orientation = overDefault (p_orientation config) (orientation DEFAULT_CONFIG) \<rparr>"

definition CHAR_WIDTH :: rat where "CHAR_WIDTH = 8"
definition MIN_NODE_WIDTH :: rat where "MIN_NODE_WIDTH = 120"
definition MAX_NODE_WIDTH :: rat where "MAX_NODE_WIDTH = 400"
definition NODE_PADDING :: rat where "NODE_PADDING = 60"

definition calculateNodeWidth :: "string \<Rightarrow> rat" where
  "calculateNodeWidth lbl =
     (let textWidth = of_nat (length lbl) * CHAR_WIDTH + NODE_PADDING
      in min (max textWidth MIN_NODE_WIDTH) MAX_NODE_WIDTH)"

fun assignNodeWidths :: "TreeNode \<Rightarrow> TreeNode" where
  "assignNodeWidths (TreeNode d cs) =
     TreeNode (d\<lparr> n_width := Some (calculateNodeWidth (n_label d)),
                  n_height := Some (nodeHeight DEFAULT_CONFIG) \<rparr>)
              (map assignNodeWidths cs)"

text \<open>\<^verbatim>\<open>a || b\<close> on an optional number: an absent number and zero are falsy.\<close>

definition orElse :: "rat option \<Rightarrow> rat \<Rightarrow> rat" where
  "orElse a b = (case a of None \<Rightarrow> b | Some v \<Rightarrow> if v = 0 then b else v)"

text \<open>
  \<^verbatim>\<open>calculateSubtreeWidths\<close> writes \<^verbatim>\<open>subtreeWidth\<close> into the node and returns it;
  the model returns the updated node with the width. \<open>reduceSubtreeWidths\<close> is the
  \<^verbatim>\<open>reduce\<close> over the children with its running sum.
\<close>

fun calculateSubtreeWidths :: "TreeNode \<Rightarrow> TreeConfig \<Rightarrow> TreeNode \<times> rat"
  and reduceSubtreeWidths :: "TreeNode list \<Rightarrow> TreeConfig \<Rightarrow> rat \<Rightarrow> TreeNode list \<times> rat"
where
  "calculateSubtreeWidths (TreeNode d cs) cfg =
     (let nw = orElse (n_width d) (nodeWidth cfg)
      in if \<not> n_expanded d \<or> length cs = 0
         then (TreeNode (d\<lparr> n_subtreeWidth := Some nw \<rparr>) cs, nw)
         else
           (let (cs', childrenWidth) = reduceSubtreeWidths cs cfg (- horizontalSpacing cfg);
                sw = max nw childrenWidth
            in (TreeNode (d\<lparr> n_subtreeWidth := Some sw \<rparr>) cs', sw)))"
| "reduceSubtreeWidths [] cfg acc = ([], acc)"
| "reduceSubtreeWidths (child # rest) cfg acc =
     (let (child', w) = calculateSubtreeWidths child cfg;
          (rest', acc') = reduceSubtreeWidths rest cfg (acc + w + horizontalSpacing cfg)
      in (child' # rest', acc'))"

text \<open>\<open>placeBelow\<close> and \<open>placeBeside\<close> are the loops over the children with the
  running \<^verbatim>\<open>childX\<close> (\<^verbatim>\<open>childY\<close>).\<close>

fun assignVerticalPositions :: "TreeNode \<Rightarrow> rat \<Rightarrow> rat \<Rightarrow> TreeConfig \<Rightarrow> TreeNode"
  and placeBelow :: "TreeNode list \<Rightarrow> rat \<Rightarrow> rat \<Rightarrow> TreeConfig \<Rightarrow> TreeNode list"
where
  "assignVerticalPositions (TreeNode d cs) x y cfg =
     (let nw = orElse (n_width d) (nodeWidth cfg);
          sw = orElse (n_subtreeWidth d) nw;
          d' = d\<lparr> n_x := Some (x + (sw - nw) / 2), n_y := Some y,
                  n_height := Some (nodeHeight cfg) \<rparr>
      in if \<not> n_expanded d \<or> length cs = 0 then TreeNode d' cs
         else TreeNode d' (placeBelow cs x (y + nodeHeight cfg + verticalSpacing cfg) cfg))"
| "placeBelow [] childX childY cfg = []"
| "placeBelow (child # rest) childX childY cfg =
     (let childWidth = orElse (n_subtreeWidth (fieldsOf child))
                         (orElse (n_width (fieldsOf child)) (nodeWidth cfg))
      in assignVerticalPositions child childX childY cfg
         # placeBelow rest (childX + childWidth + horizontalSpacing cfg) childY cfg)"

fun assignHorizontalPositions :: "TreeNode \<Rightarrow> rat \<Rightarrow> rat \<Rightarrow> TreeConfig \<Rightarrow> TreeNode"
  and placeBeside :: "TreeNode list \<Rightarrow> rat \<Rightarrow> rat \<Rightarrow> TreeConfig \<Rightarrow> TreeNode list"
where
  "assignHorizontalPositions (TreeNode d cs) x y cfg =
     (let nw = orElse (n_width d) (nodeWidth cfg);
          sw = orElse (n_subtreeWidth d) (nodeHeight cfg);
          d' = d\<lparr> n_x := Some x, n_y := Some (y + (sw - nodeHeight cfg) / 2),
                  n_height := Some (nodeHeight cfg) \<rparr>
      in if \<not> n_expanded d \<or> length cs = 0 then TreeNode d' cs
         else TreeNode d' (placeBeside cs (x + nw + horizontalSpacing cfg) y cfg))"
| "placeBeside [] childX childY cfg = []"
| "placeBeside (child # rest) childX childY cfg =
     (let childHeight = orElse (n_subtreeWidth (fieldsOf child)) (nodeHeight cfg)
      in assignHorizontalPositions child childX childY cfg
         # placeBeside rest childX (childY + childHeight + verticalSpacing cfg) cfg)"

text \<open>\<^verbatim>\<open>collectNodes\<close>: the visible nodes, in pre-order.\<close>

fun collectNodes :: "TreeNode \<Rightarrow> TreeNode list" where
  "collectNodes (TreeNode d cs) =
     TreeNode d cs # (if n_expanded d then concat (map collectNodes cs) else [])"

fun calculateDimensionsLoop :: "TreeNode list \<Rightarrow> rat \<times> rat \<Rightarrow> rat \<times> rat" where
  "calculateDimensionsLoop [] (maxX, maxY) = (maxX, maxY)"
| "calculateDimensionsLoop (node # rest) (maxX, maxY) =
     (let nw = orElse (n_width (fieldsOf node)) 180;
          nh = orElse (n_height (fieldsOf node)) 44
      in calculateDimensionsLoop rest
           (max maxX (orElse (n_x (fieldsOf node)) 0 + nw),
            max maxY (orElse (n_y (fieldsOf node)) 0 + nh)))"

definition calculateDimensions :: "TreeNode list \<Rightarrow> rat \<times> rat" where
  "calculateDimensions nodes =
     (let (maxX, maxY) = calculateDimensionsLoop nodes (0, 0)
      in (maxX + horizontalSpacing DEFAULT_CONFIG, maxY + verticalSpacing DEFAULT_CONFIG))"

record TreeLayout =
  nodes :: "TreeNode list"
  width :: rat
  height :: rat

definition calculateTreeLayout :: "TreeNode \<Rightarrow> PartialTreeConfig \<Rightarrow> TreeLayout" where
  "calculateTreeLayout tree config =
     (let cfg = withDefaults config;
          r1 = assignNodeWidths tree;
          r2 = fst (calculateSubtreeWidths r1 cfg);
          r3 = (if orientation cfg = Vertical then assignVerticalPositions r2 0 0 cfg
                else assignHorizontalPositions r2 0 0 cfg);
          ns = collectNodes r3;
          (w, h) = calculateDimensions ns
      in \<lparr> nodes = ns, width = w, height = h \<rparr>)"

text \<open>
  \<^verbatim>\<open>calculateFitZoom\<close> divides, and a JavaScript division by zero is no error: the
  result of the division is a number, an infinity or \<^verbatim>\<open>NaN\<close>. The sign of a zero
  is not modelled.
\<close>

datatype jsnum = Fin rat | PosInf | NegInf | NaN

definition jsDiv :: "rat \<Rightarrow> rat \<Rightarrow> jsnum" where
  "jsDiv a b =
     (if b = 0 then (if a = 0 then NaN else if 0 < a then PosInf else NegInf)
      else Fin (a / b))"

text \<open>\<^verbatim>\<open>Math.min\<close> of two numbers.\<close>

fun jsMin :: "jsnum \<Rightarrow> jsnum \<Rightarrow> jsnum" where
  "jsMin NaN b = NaN"
| "jsMin a NaN = NaN"
| "jsMin NegInf b = NegInf"
| "jsMin a NegInf = NegInf"
| "jsMin PosInf b = b"
| "jsMin a PosInf = a"
| "jsMin (Fin a) (Fin b) = Fin (min a b)"

text \<open>\<^verbatim>\<open>a > b\<close> on numbers: false when either side is \<^verbatim>\<open>NaN\<close>.\<close>

fun jsGreater :: "jsnum \<Rightarrow> jsnum \<Rightarrow> bool" where
  "jsGreater NaN b = False"
| "jsGreater a NaN = False"
| "jsGreater NegInf b = False"
| "jsGreater PosInf b = (b \<noteq> PosInf)"
| "jsGreater (Fin a) NegInf = True"
| "jsGreater (Fin a) PosInf = False"
| "jsGreater (Fin a) (Fin b) = (b < a)"

definition DEFAULT_PADDING :: rat where
  "DEFAULT_PADDING = 40"

definition calculateFitZoom :: "TreeLayout \<Rightarrow> rat \<Rightarrow> rat \<Rightarrow> rat \<Rightarrow> jsnum" where
  "calculateFitZoom layout viewportWidth viewportHeight padding =
     (let scaleX = jsDiv (viewportWidth - padding * 2) (width layout);
          scaleY = jsDiv (viewportHeight - padding * 2) (height layout)
      in jsMin (jsMin scaleX scaleY) (Fin 1))"

section \<open>Flowchart Emitter\<close>

text \<open>\<^verbatim>\<open>escapeLabel\<close>: the four replacements in the order of the source, then
  \<^verbatim>\<open>slice(0, 50)\<close>.\<close>

definition escapeLabel :: "string \<Rightarrow> string" where
  "escapeLabel text =
     take 50
       (map (\<lambda>c. if c = CHR ''|'' then CHR ''/'' else c)
         (map (\<lambda>c. if c = CHR 0x0A then CHR '' '' else c)
           (filter (\<lambda>c. c \<notin> set ''<>{}'')
             (map (\<lambda>c. if c = CHR 0x22 then CHR 0x27 else c) text))))"

definition formatVarName :: "json \<Rightarrow> string" where
  "formatVarName operands =
     (case operands of
        JStr s \<Rightarrow> orData s
      | JNum k \<Rightarrow> showInt k
      | JSpecial k \<Rightarrow> showSpecial k
      | JArr xs \<Rightarrow> orData (jsStringU (nth_opt xs 0))
      | _ \<Rightarrow> ''data'')"

fun formatOperand :: "json \<Rightarrow> string" where
  "formatOperand (JStr s) = [CHR 0x27] @ s @ [CHR 0x27]"
| "formatOperand (JArr xs) = itemsLabel (length xs)"
| "formatOperand (JObj []) = ''{}''"
| "formatOperand (JObj ((operator, operands) # rest)) =
     (if operator = ''var'' then formatVarName operands else operator @ ''(...)'')"
| "formatOperand v = jsString v"

fun buildConditionLabel :: "json \<Rightarrow> string" where
  "buildConditionLabel (JArr xs) = jsonStringify (JArr xs)"
| "buildConditionLabel (JObj []) = ''{}''"
| "buildConditionLabel (JObj ((operator, operands) # rest)) =
     (if operator \<in> set comparisonOps \<and> isArray operands \<and> arrayLength operands \<ge> 2 then
        (case operands of
           JArr (l # r # others) \<Rightarrow> formatOperand l @ '' '' @ operator @ '' '' @ formatOperand r
         | _ \<Rightarrow> [])
      else if operator = ''in'' \<and> isArray operands \<and> arrayLength operands \<ge> 2 then
        (case operands of
           JArr (needle # haystack # others) \<Rightarrow> formatOperand needle @ '' in '' @ formatOperand haystack
         | _ \<Rightarrow> [])
      else if operator = ''and'' \<and> isArray operands then
        (case operands of
           JArr xs \<Rightarrow> join '' AND '' (map buildConditionLabel xs)
         | _ \<Rightarrow> [])
      else if operator = ''or'' \<and> isArray operands then
        (case operands of
           JArr xs \<Rightarrow> join '' OR '' (map buildConditionLabel xs)
         | _ \<Rightarrow> [])
      else if operator = ''!'' then
        ''NOT '' @
        (case operands of
           JArr [] \<Rightarrow> ''undefined''
         | JArr (inner # others) \<Rightarrow> buildConditionLabel inner
         | inner \<Rightarrow> buildConditionLabel inner)
      else operator @ ''(...)'')"
| "buildConditionLabel v = jsString v"

text \<open>
  The state of one emission: the module-level \<^verbatim>\<open>nodeCounter\<close> and the two arrays
  \<^verbatim>\<open>lines\<close> and \<^verbatim>\<open>connections\<close> that every function appends to.
\<close>

record EmitState =
  nodeCounter :: nat
  lines :: "string list"
  connections :: "string list"

definition generateNodeIdM :: "EmitState \<Rightarrow> string \<times> EmitState" where
  "generateNodeIdM st = (''n'' @ showNat (Suc (nodeCounter st)), st\<lparr> nodeCounter := Suc (nodeCounter st) \<rparr>)"

definition pushLine :: "string \<Rightarrow> EmitState \<Rightarrow> EmitState" where
  "pushLine l st = st\<lparr> lines := lines st @ [l] \<rparr>"

definition pushConnection :: "string \<Rightarrow> EmitState \<Rightarrow> EmitState" where
  "pushConnection l st = st\<lparr> connections := connections st @ [l] \<rparr>"

text \<open>\<^verbatim>\<open>if (parentId) connections.push(`    ${parentId} --> ${id}`)\<close>.\<close>

definition connectParent :: "string option \<Rightarrow> string \<Rightarrow> EmitState \<Rightarrow> EmitState" where
  "connectParent parentId i st =
     (case parentId of
        None \<Rightarrow> st
      | Some pid \<Rightarrow> if pid = [] then st else pushConnection (''    '' @ pid @ '' --> '' @ i) st)"

text \<open>A node declaration with its connection to the parent: the shape of the code
  that is shared by the branches of \<^verbatim>\<open>processNode\<close>.\<close>

definition declareNode :: "(string \<Rightarrow> string) \<Rightarrow> string option \<Rightarrow> EmitState \<Rightarrow> string \<times> EmitState" where
  "declareNode shape parentId st =
     (let (i, st1) = generateNodeIdM st
      in (i, connectParent parentId i (pushLine (''    '' @ i @ shape i) st1)))"

definition processVarNode :: "json \<Rightarrow> string option \<Rightarrow> EmitState \<Rightarrow> string \<times> EmitState" where
  "processVarNode operands parentId st =
     (let (i, st1) = generateNodeIdM st;
          varName = formatVarName operands
      in (i, connectParent parentId i
               (pushLine (''    '' @ i @ ''[/'' @ escapeLabel varName @ ''/]'') st1)))"

text \<open>The two edge labels, in UTF-8: a check mark and \<^verbatim>\<open>Yes\<close>, a ballot cross and
  \<^verbatim>\<open>No\<close>.\<close>

definition yesLabel :: string where
  "yesLabel = [CHR 0xE2, CHR 0x9C, CHR 0x93] @ '' Yes''"

definition noLabel :: string where
  "noLabel = [CHR 0xE2, CHR 0x9C, CHR 0x97] @ '' No''"

definition edgeLine :: "string \<Rightarrow> string \<Rightarrow> string \<Rightarrow> string" where
  "edgeLine i lbl target = ''    '' @ i @ '' -->|'' @ dq lbl @ ''| '' @ target"

definition classLine :: "string \<Rightarrow> string \<Rightarrow> string" where
  "classLine i cls = ''    class '' @ i @ '' '' @ cls"

text \<open>The label of a result node that is no nested \<^verbatim>\<open>if\<close> and no variable.\<close>

fun resultLabel :: "json \<Rightarrow> string" where
  "resultLabel JNull = ''null''"
| "resultLabel (JStr s) = dq (escapeLabel s)"
| "resultLabel (JNum k) = showInt k"
| "resultLabel (JSpecial k) = showSpecial k"
| "resultLabel (JBool b) = showBool b"
| "resultLabel (JObj kvs) = jsStringU (map_option JStr (firstKey (JObj kvs))) @ ''(...)''"
| "resultLabel (JArr xs) = take 30 (jsonStringify (JArr xs))"

text \<open>
  The mutually recursive functions of the emitter; \<open>processNodes\<close> is the
  \<^verbatim>\<open>forEach\<close> over operands or array elements. \<^verbatim>\<open>processComparisonNode\<close> and
  \<^verbatim>\<open>processLogicalNode\<close> are the two branches of \<open>processNode\<close> that declare the
  node with their shape and then run the same loop.
\<close>

function (sequential) processNode :: "json \<Rightarrow> string option \<Rightarrow> bool \<Rightarrow> EmitState \<Rightarrow> string \<times> EmitState"
  and processNodes :: "json list \<Rightarrow> string \<Rightarrow> bool \<Rightarrow> EmitState \<Rightarrow> EmitState"
  and processIfNode :: "json \<Rightarrow> string option \<Rightarrow> bool \<Rightarrow> EmitState \<Rightarrow> string \<times> EmitState"
  and processResultNode :: "json \<Rightarrow> bool \<Rightarrow> EmitState \<Rightarrow> string \<times> EmitState"
where
  "processNode JNull parentId includeValues st = declareNode (\<lambda>i. ''([null])'') parentId st"
| "processNode (JStr s) parentId includeValues st =
     declareNode (\<lambda>i. ''(['' @ escapeLabel (dq s) @ ''])'') parentId st"
| "processNode (JNum k) parentId includeValues st =
     declareNode (\<lambda>i. ''(['' @ showInt k @ ''])'') parentId st"
| "processNode (JSpecial k) parentId includeValues st =
     declareNode (\<lambda>i. ''(['' @ showSpecial k @ ''])'') parentId st"
| "processNode (JBool b) parentId includeValues st =
     declareNode (\<lambda>i. ''(['' @ showBool b @ ''])'') parentId st"
| "processNode (JArr xs) parentId includeValues st =
     (let (i, st1) = declareNode (\<lambda>i. ''[[Array]]'') parentId st
      in (i, if includeValues then processNodes xs i includeValues st1 else st1))"
| "processNode (JObj []) parentId includeValues st = declareNode (\<lambda>i. ''([{}])'') parentId st"
| "processNode (JObj ((operator, operands) # rest)) parentId includeValues st =
     (if operator = ''var'' then processVarNode operands parentId st
      else if operator = ''if'' then processIfNode operands parentId includeValues st
      else if operator \<in> set [''>'', ''>='', ''<'', ''<='', ''=='', ''==='', ''!='', ''!==''] then
        (let (i, st1) = declareNode (\<lambda>i. ''{'' @ escapeLabel operator @ ''}'') parentId st
         in (i, case operands of
                  JArr xs \<Rightarrow> processNodes xs i includeValues st1
                | _ \<Rightarrow> st1))
      else if operator \<in> set [''and'', ''or''] then
        (let (i, st1) = declareNode (\<lambda>i. ''{{'' @ operator @ ''}}'') parentId st
         in (i, case operands of
                  JArr xs \<Rightarrow> processNodes xs i includeValues st1
                | _ \<Rightarrow> st1))
      else
        (let (i, st1) = declareNode (\<lambda>i. ''{{'' @ escapeLabel operator @ ''}}'') parentId st
         in (i, case operands of
                  JArr xs \<Rightarrow> processNodes xs i includeValues st1
                | JNull \<Rightarrow> st1
                | _ \<Rightarrow> snd (processNode operands (Some i) includeValues st1))))"
| "processNodes [] parentId includeValues st = st"
| "processNodes (item # items) parentId includeValues st =
     processNodes items parentId includeValues
       (snd (processNode item (Some parentId) includeValues st))"
| "processIfNode (JArr (cond # thenResult # others)) parentId includeValues st =
     (let conditionLabel = buildConditionLabel cond;
          (i, st1) = generateNodeIdM st;
          st2 = pushLine (''    '' @ i @ ''{'' @ dq (escapeLabel conditionLabel) @ ''}'') st1;
          st3 = connectParent parentId i (pushLine (classLine i ''condition'') st2);
          (thenId, st4) = processResultNode thenResult includeValues st3;
          st5 = pushConnection (edgeLine i yesLabel thenId) st4
      in case others of
           [] \<Rightarrow> (i, st5)
         | elseResult # rest' \<Rightarrow>
             (let (elseId, st6) = processResultNode elseResult includeValues st5
              in (i, pushConnection (edgeLine i noLabel elseId) st6)))"
| "processIfNode operands parentId includeValues st =
     (let (i, st1) = generateNodeIdM st;
          st2 = pushLine (''    '' @ i @ ''{{'' @ dq ''IF ?'' @ ''}}'') st1
      in (i, connectParent parentId i (pushLine (classLine i ''condition'') st2)))"
| "processResultNode (JObj ((k, v) # rest)) includeValues st =
     (if k = ''if'' \<or> k = ''?:'' then processIfNode v None includeValues st
      else
        (let (i, st1) = generateNodeIdM st
         in if k = ''var'' then
              (i, pushLine (classLine i ''variable'')
                    (pushLine (''    '' @ i @ ''[/'' @ dq (escapeLabel (formatVarName v)) @ ''/]'') st1))
            else
              (i, pushLine (classLine i ''result'')
                    (pushLine (''    '' @ i @ ''(['' @
                               dq (escapeLabel (resultLabel (JObj ((k, v) # rest)))) @ ''])'') st1))))"
| "processResultNode rule includeValues st =
     (let (i, st1) = generateNodeIdM st
      in (i, pushLine (classLine i ''result'')
               (pushLine (''    '' @ i @ ''(['' @ dq (escapeLabel (resultLabel rule)) @ ''])'') st1)))"
  by pat_completeness auto

termination
  by (relation "measure (\<lambda>x. case x of
           Inl (Inl (j, r)) \<Rightarrow> size j
         | Inl (Inr (js, r)) \<Rightarrow> size_list size js
         | Inr (Inl (j, r)) \<Rightarrow> size j
         | Inr (Inr (j, r)) \<Rightarrow> size j)") auto

datatype MermaidOrientation = TD | TB | LR | RL

definition showOrientation :: "MermaidOrientation \<Rightarrow> string" where
  "showOrientation ori = (case ori of TD \<Rightarrow> ''TD'' | TB \<Rightarrow> ''TB'' | LR \<Rightarrow> ''LR'' | RL \<Rightarrow> ''RL'')"

record ConversionOptions =
  o_orientation :: "MermaidOrientation option"
  o_includeValues :: "bool option"

definition noOptions :: ConversionOptions where
  "noOptions = \<lparr> o_orientation = None, o_includeValues = None \<rparr>"

text \<open>The header and the four style classes, then the node declarations, an empty
  line and the connections, joined by newlines. The counter starts at 0 in every call.\<close>

definition headerLines :: "MermaidOrientation \<Rightarrow> string list" where
  "headerLines ori =
     [''flowchart '' @ showOrientation ori,
      [],
      ''  %% Styling'',
      ''  classDef condition fill:#fef3c7,stroke:#f59e0b,color:#92400e'',
      ''  classDef result fill:#d1fae5,stroke:#10b981,color:#065f46'',
      ''  classDef variable fill:#dbeafe,stroke:#3b82f6,color:#1e40af'',
      ''  classDef operator fill:#f3e8ff,stroke:#a855f7,color:#6b21a8'',
      []]"

definition flowchartLines :: "json \<Rightarrow> ConversionOptions \<Rightarrow> string list" where
  "flowchartLines rule options =
     (let ori = overDefault (o_orientation options) TD;
          includeValues = overDefault (o_includeValues options) True;
          st0 = \<lparr> nodeCounter = 0, lines = headerLines ori, connections = [] \<rparr>;
          st = snd (processNode rule None includeValues st0)
      in lines st @ [[]] @ connections st)"

definition toMermaidFlowchart :: "json \<Rightarrow> ConversionOptions \<Rightarrow> string" where
  "toMermaidFlowchart rule options = join [CHR 0x0A] (flowchartLines rule options)"

section \<open>The toggle on objects in a store\<close>

text \<open>
  Whether \<^verbatim>\<open>toggleNodeExpansion\<close> changes the tree it is given is a question about
  objects, not values. Here a node object is a cell of a store: its fields and the
  addresses of its children; an address is an index into the store, and a new object
  takes the next free index. \<open>represents h r t\<close> says that the object at \<open>r\<close> and the
  objects it reaches are the tree \<open>t\<close>: this is what \<^verbatim>\<open>JSON.stringify\<close> reads.
\<close>

record Obj =
  o_fields :: NodeData
  o_children :: "nat list"

type_synonym store = "Obj list"

fun represents :: "store \<Rightarrow> nat \<Rightarrow> TreeNode \<Rightarrow> bool" where
  "represents h r (TreeNode d cs) =
     (r < length h \<and> o_fields (h ! r) = d \<and> list_all2 (represents h) (o_children (h ! r)) cs)"

text \<open>\<^verbatim>\<open>JSON.parse\<close> builds the objects of a tree, the children before their parent.\<close>

fun allocTree :: "TreeNode \<Rightarrow> store \<Rightarrow> nat \<times> store"
  and allocTrees :: "TreeNode list \<Rightarrow> store \<Rightarrow> nat list \<times> store"
where
  "allocTree (TreeNode d cs) h =
     (let (rs, h1) = allocTrees cs h
      in (length h1, h1 @ [\<lparr> o_fields = d, o_children = rs \<rparr>]))"
| "allocTrees [] h = ([], h)"
| "allocTrees (c # cs) h =
     (let (r, h1) = allocTree c h;
          (rs, h2) = allocTrees cs h1
      in (r # rs, h2))"

text \<open>The object that a reference leads to from the object at \<open>r\<close>.\<close>

fun addrAt :: "store \<Rightarrow> nat \<Rightarrow> nat list \<Rightarrow> nat option" where
  "addrAt h r [] = (if r < length h then Some r else None)"
| "addrAt h r (k # ks) =
     (if r < length h \<and> k < length (o_children (h ! r))
      then addrAt h (o_children (h ! r) ! k) ks else None)"

text \<open>
  \<^verbatim>\<open>toggleNodeExpansion\<close> on the store \<open>h\<close>, where \<open>t\<close> is the tree that the argument
  represents: the objects of its round trip through JSON text are allocated, the node
  is looked up in this copy, and the \<^verbatim>\<open>expanded\<close> field of the object found is
  assigned. The result is the address of the copy and the new store.
\<close>

definition toggleNodeExpansionInStore :: "store \<Rightarrow> TreeNode \<Rightarrow> string \<Rightarrow> nat \<times> store" where
  "toggleNodeExpansionInStore h t nodeId =
     (let (clone, h1) = allocTree (jsonClone t) h
      in case findNodeById (jsonClone t) nodeId of
           None \<Rightarrow> (clone, h1)
         | Some ref \<Rightarrow>
             (case addrAt h1 clone ref of
                None \<Rightarrow> (clone, h1)
              | Some a \<Rightarrow>
                  (clone, h1[a := (h1 ! a)\<lparr> o_fields :=
                                   (o_fields (h1 ! a))\<lparr> n_expanded := \<not> n_expanded (o_fields (h1 ! a)) \<rparr> \<rparr>])))"

section \<open>The rules and trees of the scenarios\<close>

definition ageRule :: json where
  "ageRule = JObj [(''>='', JArr [JObj [(''var'', JStr ''age'')], JNum 18])]"

definition leafX :: TreeNode where
  "leafX = TreeNode (nodeLiteral ''node-1'' Value ''x'' None (Some (JStr ''x'')) None 0 [] True) []"

definition ifRule :: json where
  "ifRule = JObj [(''if'', JArr [JObj [(''>'', JArr [JObj [(''var'', JStr ''age'')], JNum 18])],
                               JStr ''adult'', JStr ''minor''])]"

definition rowTree :: TreeNode where
  "rowTree =
     TreeNode (nodeLiteral ''node-1'' Operator ''a AND b AND c'' (Some ''and'') None None 0 [] True)
       [TreeNode (nodeLiteral ''node-2'' Operator ''x > 1'' (Some ''>'') None (Some ''node-1'') 1 [] True) [],
        TreeNode (nodeLiteral ''node-3'' Operator ''a rather long label for the second child''
                    (Some ''>'') None (Some ''node-1'') 1 [] True) [],
        TreeNode (nodeLiteral ''node-4'' Array ''[2 items]'' None None (Some ''node-1'') 1 [] False)
          [TreeNode (nodeLiteral ''node-5'' Value ''1'' None None (Some ''node-4'') 2 [] True) []]]"

text \<open>The root of \<open>rowTree\<close> as the default layout leaves it: the hidden child of the
  collapsed array has its width and nothing else.\<close>

definition rowTreeLaid :: TreeNode where
  "rowTreeLaid =
     TreeNode ((nodeLiteral ''node-1'' Operator ''a AND b AND c'' (Some ''and'') None None 0 [] True)
                  \<lparr> n_x := Some 258, n_y := Some 0, n_width := Some 164, n_height := Some 44,
                    n_subtreeWidth := Some 680 \<rparr>)
       [TreeNode ((nodeLiteral ''node-2'' Operator ''x > 1'' (Some ''>'') None (Some ''node-1'') 1 [] True)
                    \<lparr> n_x := Some 0, n_y := Some 94, n_width := Some 120, n_height := Some 44,
                      n_subtreeWidth := Some 120 \<rparr>) [],
        TreeNode ((nodeLiteral ''node-3'' Operator ''a rather long label for the second child''
                     (Some ''>'') None (Some ''node-1'') 1 [] True)
                    \<lparr> n_x := Some 144, n_y := Some 94, n_width := Some 380, n_height := Some 44,
                      n_subtreeWidth := Some 380 \<rparr>) [],
        TreeNode ((nodeLiteral ''node-4'' Array ''[2 items]'' None None (Some ''node-1'') 1 [] False)
                    \<lparr> n_x := Some 548, n_y := Some 94, n_width := Some 132, n_height := Some 44,
                      n_subtreeWidth := Some 132 \<rparr>)
          [TreeNode ((nodeLiteral ''node-5'' Value ''1'' None None (Some ''node-4'') 2 [] True)
                       \<lparr> n_width := Some 120, n_height := Some 44 \<rparr>) []]]"

definition familyTree :: TreeNode where
  "familyTree =
     TreeNode (nodeLiteral ''node-1'' Operator ''root'' None None None 0 [] False)
       [TreeNode (nodeLiteral ''node-2'' Value ''a'' None None (Some ''node-1'') 1 [] True) [],
        TreeNode (nodeLiteral ''node-3'' Operator ''b'' None None (Some ''node-1'') 1 [] True)
          [TreeNode (nodeLiteral ''node-4'' Value ''c'' None None (Some ''node-3'') 2 [] True) []]]"

text \<open>A rule with a number that is not finite, as the rule text
  \<^verbatim>\<open>{"==": [{"var": "x"}, 1e999]}\<close> parses, and the tree the parser builds for it.\<close>

definition infRule :: json where
  "infRule = JObj [(''=='', JArr [JObj [(''var'', JStr ''x'')], JSpecial PosInfinity])]"

definition infTree :: TreeNode where
  "infTree = TreeNode (nodeLiteral ''node-1'' Operator (dq ''x'' @ '' == Infinity'') (Some ''=='')
                         (Some infRule) None 0 [] True) []"

text \<open>A chained \<^verbatim>\<open>if\<close> with six operands, and two rules that are one string and one
  comparison.\<close>

definition sixChain :: json where
  "sixChain = JObj [(''if'', JArr [JObj [(''var'', JStr ''a'')], JStr ''A'',
                                 JObj [(''var'', JStr ''b'')], JStr ''B'',
                                 JObj [(''var'', JStr ''c'')], JStr ''C''])]"

definition bracketRule :: json where
  "bracketRule = JStr ''a])''"

definition greaterRule :: json where
  "greaterRule = JObj [(''>'', JArr [JNum 1, JNum 2])]"

text \<open>A store that holds \<open>familyTree\<close> and nothing else, and the address of its root.\<close>

definition familyStore :: store where
  "familyStore = snd (allocTree familyTree [])"

definition familyRoot :: nat where
  "familyRoot = fst (allocTree familyTree [])"

section \<open>Notions used to state the properties\<close>

text \<open>\<open>mapFields f t\<close> is the tree \<open>t\<close> with \<open>f\<close> applied to the fields of every node.
  Two trees with the same image under \<open>forgetExpanded\<close> have the same shape and
  agree, node by node, on every field other than \<^verbatim>\<open>expanded\<close>.\<close>

fun mapFields :: "(NodeData \<Rightarrow> NodeData) \<Rightarrow> TreeNode \<Rightarrow> TreeNode" where
  "mapFields f (TreeNode d cs) = TreeNode (f d) (map (mapFields f) cs)"

definition forgetExpanded :: "TreeNode \<Rightarrow> TreeNode" where
  "forgetExpanded t = mapFields (\<lambda>d. d\<lparr> n_expanded := False \<rparr>) t"

definition flip :: "NodeData \<Rightarrow> NodeData" where
  "flip d = d\<lparr> n_expanded := \<not> n_expanded d \<rparr>"

text \<open>
  The geometry of a laid-out node, read as the renderer reads it: the left and right
  edge of its box, its top, and the horizontal span allotted to its subtree, which
  is \<^verbatim>\<open>subtreeWidth\<close> wide and has the box of the node in its middle.
\<close>

definition numOr0 :: "rat option \<Rightarrow> rat" where
  "numOr0 v = (case v of None \<Rightarrow> 0 | Some a \<Rightarrow> a)"

definition nodeLeft :: "TreeNode \<Rightarrow> rat" where
  "nodeLeft n = numOr0 (n_x (fieldsOf n))"

definition nodeRight :: "TreeNode \<Rightarrow> rat" where
  "nodeRight n = nodeLeft n + numOr0 (n_width (fieldsOf n))"

definition nodeTop :: "TreeNode \<Rightarrow> rat" where
  "nodeTop n = numOr0 (n_y (fieldsOf n))"

definition subW :: "TreeNode \<Rightarrow> rat" where
  "subW n = numOr0 (n_subtreeWidth (fieldsOf n))"

definition spanLeft :: "TreeNode \<Rightarrow> rat" where
  "spanLeft n = nodeLeft n - (subW n - numOr0 (n_width (fieldsOf n))) / 2"

definition spanRight :: "TreeNode \<Rightarrow> rat" where
  "spanRight n = spanLeft n + subW n"

text \<open>The invariants of the three passes of the layout. After the first pass every
  node has a positive width.\<close>

fun hasWidths :: "TreeNode \<Rightarrow> bool" where
  "hasWidths (TreeNode d cs) =
     ((case n_width d of None \<Rightarrow> False | Some w \<Rightarrow> 0 < w) \<and> list_all hasWidths cs)"

text \<open>The width of a row of subtrees with the spacing between them.\<close>

definition rowWidth :: "rat \<Rightarrow> TreeNode list \<Rightarrow> rat" where
  "rowWidth hs cs = sum_list (map subW cs) + hs * (of_nat (length cs) - 1)"

text \<open>After the second pass every visible node has a subtree width that is at least
  its own width and at least the width of the row of its visible children.\<close>

fun sized :: "rat \<Rightarrow> TreeNode \<Rightarrow> bool" where
  "sized hs (TreeNode d cs) =
     (case n_width d of
        None \<Rightarrow> False
      | Some w \<Rightarrow>
          (case n_subtreeWidth d of
             None \<Rightarrow> False
           | Some s \<Rightarrow>
               0 < w \<and> w \<le> s \<and>
               (n_expanded d \<and> cs \<noteq> [] \<longrightarrow> rowWidth hs cs \<le> s \<and> list_all (sized hs) cs)))"

text \<open>After the third pass a visible subtree that was given the position \<open>(x, y)\<close> has
  its root centred in the span that starts at \<open>x\<close>, and its visible children in a row
  one level below, from \<open>x\<close> on, each within the span of the parent.\<close>

fun placed :: "TreeConfig \<Rightarrow> rat \<Rightarrow> rat \<Rightarrow> TreeNode \<Rightarrow> bool"
  and placedRow :: "TreeConfig \<Rightarrow> rat \<Rightarrow> rat \<Rightarrow> rat \<Rightarrow> TreeNode list \<Rightarrow> bool"
where
  "placed cfg x y (TreeNode d cs) =
     (case n_width d of
        None \<Rightarrow> False
      | Some w \<Rightarrow>
          (case n_subtreeWidth d of
             None \<Rightarrow> False
           | Some s \<Rightarrow>
               0 < w \<and> w \<le> s \<and> n_x d = Some (x + (s - w) / 2) \<and> n_y d = Some y \<and>
               (n_expanded d \<and> cs \<noteq> [] \<longrightarrow>
                  placedRow cfg x (y + nodeHeight cfg + verticalSpacing cfg) (x + s) cs)))"
| "placedRow cfg cx cy bound [] = True"
| "placedRow cfg cx cy bound (c # cs) =
     (placed cfg cx cy c \<and> cx + subW c \<le> bound \<and>
      placedRow cfg (cx + subW c + horizontalSpacing cfg) cy bound cs)"

text \<open>A tree whose objects fill the addresses from \<open>lo\<close> to its root \<open>r\<close>, the children in
  a row before the root: the form in which \<open>allocTree\<close> lays a tree out, with no
  object shared between two nodes.\<close>

fun copied :: "store \<Rightarrow> nat \<Rightarrow> nat \<Rightarrow> TreeNode \<Rightarrow> bool"
  and copiedRow :: "store \<Rightarrow> nat \<Rightarrow> nat \<Rightarrow> nat list \<Rightarrow> TreeNode list \<Rightarrow> bool"
where
  "copied h lo r (TreeNode d cs) =
     (lo \<le> r \<and> r < length h \<and> o_fields (h ! r) = d \<and> copiedRow h lo r (o_children (h ! r)) cs)"
| "copiedRow h lo hi [] [] = (lo \<le> hi)"
| "copiedRow h lo hi (r # rs) (c # cs) =
     (r < hi \<and> copied h lo r c \<and> copiedRow h (Suc r) hi rs cs)"
| "copiedRow h lo hi [] (c # cs) = False"
| "copiedRow h lo hi (r # rs) [] = False"

definition setFields :: "(NodeData \<Rightarrow> NodeData) \<Rightarrow> nat \<Rightarrow> store \<Rightarrow> store" where
  "setFields g a h = h[a := (h ! a)\<lparr> o_fields := g (o_fields (h ! a)) \<rparr>]"

text \<open>The rules whose label is empty: an \<^verbatim>\<open>and\<close>, an \<^verbatim>\<open>or\<close> or an arithmetic
  operation on an empty operand list, or on a single operand that is such a rule.\<close>

fun emptyLabel :: "json \<Rightarrow> bool" where
  "emptyLabel (JObj ((operator, JArr xs) # rest)) =
     (operator \<in> set ([''and'', ''or''] @ arithmeticOps) \<and>
      (case xs of [] \<Rightarrow> True | [x] \<Rightarrow> emptyLabel x | _ \<Rightarrow> False))"
| "emptyLabel v = False"

text \<open>The values that the round trip through JSON text gives back as they are, and the
  trees all of whose values are such.\<close>

fun representable :: "json \<Rightarrow> bool" where
  "representable (JSpecial n) = False"
| "representable (JArr xs) = list_all representable xs"
| "representable (JObj kvs) = list_all (\<lambda>(k, v). representable v) kvs"
| "representable v = True"

definition safeFields :: "NodeData \<Rightarrow> bool" where
  "safeFields d =
     ((case n_value d of None \<Rightarrow> True | Some v \<Rightarrow> representable v) \<and>
      (case n_evaluationResult d of None \<Rightarrow> True | Some v \<Rightarrow> representable v))"

fun jsonSafe :: "TreeNode \<Rightarrow> bool" where
  "jsonSafe (TreeNode d cs) = (safeFields d \<and> list_all jsonSafe cs)"

text \<open>What \<open>escapeLabel\<close> is to do with one character, in the words of the
  specification: a double quote becomes an apostrophe, a newline a space, a pipe a
  slash; angle brackets and curly braces go (\<open>keptChar\<close> is false for them).\<close>

definition replaceChar :: "char \<Rightarrow> char" where
  "replaceChar c =
     (if c = CHR 0x22 then CHR 0x27
      else if c = CHR 0x0A then CHR '' ''
      else if c = CHR ''|'' then CHR ''/''
      else c)"

definition keptChar :: "char \<Rightarrow> bool" where
  "keptChar c = (c \<noteq> CHR ''<'' \<and> c \<noteq> CHR ''>'' \<and> c \<noteq> CHR ''{'' \<and> c \<noteq> CHR ''}'')"

text \<open>
  A condition that every line of a flow diagram meets: outside double quotes, each
  closing bracket closes the bracket that was opened last, and none stays open. The
  first argument is the stack of the brackets that are open, the second tells whether
  the scan is inside double quotes.
\<close>

fun closes :: "char \<Rightarrow> char \<Rightarrow> bool" where
  "closes opening closing =
     ((opening = CHR ''('' \<and> closing = CHR '')'') \<or>
      (opening = CHR ''['' \<and> closing = CHR '']'') \<or>
      (opening = CHR ''{'' \<and> closing = CHR ''}''))"

fun balancedFrom :: "char list \<Rightarrow> bool \<Rightarrow> string \<Rightarrow> bool" where
  "balancedFrom stack quoted [] = (stack = [] \<and> \<not> quoted)"
| "balancedFrom stack quoted (c # cs) =
     (if c = CHR 0x22 then balancedFrom stack (\<not> quoted) cs
      else if quoted then balancedFrom stack quoted cs
      else if c \<in> set ''([{'' then balancedFrom (c # stack) quoted cs
      else if c \<in> set '')]}'' then
        (case stack of
           [] \<Rightarrow> False
         | opening # rest \<Rightarrow> closes opening c \<and> balancedFrom rest quoted cs)
      else balancedFrom stack quoted cs)"

definition bracketsBalanced :: "string \<Rightarrow> bool" where
  "bracketsBalanced line = balancedFrom [] False line"

section \<open>Properties of the Tree Builder\<close>

text \<open>A chain with an even number of operands never reaches a remainder of one
  operand: two are dropped at each step, so the recursion goes on with the empty
  list for ever.\<close>

lemma createChainedIfNode_even:
  "even (length operands) \<Longrightarrow> createChainedIfNode n operands parentId d p rule c = None"
proof (induction n arbitrary: operands parentId d p c)
  case 0
  show ?case by simp
next
  case (Suc n)
  have ev: "even (length (drop 2 operands))"
    using Suc.prems by (cases operands) (auto simp: drop_Cons')
  then have ne: "length (drop 2 operands) \<noteq> 1"
    by (metis odd_one)
  have "createChainedIfNode n (drop 2 operands) parentId' d' p' rule c' = None"
    for parentId' d' p' c'
    using Suc.IH [OF ev] .
  with ne show ?case
    by (simp add: Let_def split: option.split prod.split)
qed

text \<open>
  Claim C1. The parser is to return a tree for every rule, in particular for a
  chained \<^verbatim>\<open>if\<close> with an even number of operands. It does not: for
  \<^verbatim>\<open>{"if": [true, 1, false, 2]}\<close> the decomposition drops two operands at a
  time, passes from two operands to none without meeting the case of one operand
  left, and recurses on the empty list without end. Whatever the bound on the depth
  of the call stack, the call does not return.
\<close>

theorem parseRuleToTree_even_chain_never_returns:
  "parseRuleToTree fuel (JObj [(''if'', JArr [JBool True, JNum 1, JBool False, JNum 2])])
     None 0 [] c = None"
proof (cases fuel)
  case 0
  then show ?thesis by simp
next
  case (Suc n)
  have chain: "createChainedIfNode k [JBool True, JNum 1, JBool False, JNum 2] None 0 []
                 (JObj [(''if'', JArr [JBool True, JNum 1, JBool False, JNum 2])]) 0 = None" for k
    by (rule createChainedIfNode_even) simp
  show ?thesis
  proof (cases n)
    case 0
    with Suc show ?thesis by simp
  next
    case (Suc m)
    with \<open>fuel = Suc n\<close> chain show ?thesis by simp
  qed
qed

text \<open>
  Claim C2, as the source has it. The rule \<^verbatim>\<open>{">=": [{"var": "age"}, 18]}\<close> gives a
  single operator node without children, and its label is \<^verbatim>\<open>"age" >= 18\<close>: the
  label formatter prints a variable as its path in double quotes, not with a dollar
  sign. This holds for every initial value of the counter and every positive bound
  on the stack.
\<close>

theorem parseRuleToTree_age_rule:
  "parseRuleToTree (Suc n) ageRule None 0 [] c =
     Some (TreeNode (nodeLiteral ''node-1'' Operator (dq ''age'' @ '' >= 18'') (Some ''>='')
                       (Some ageRule) None 0 [] True) [], 1)"
  by (simp add: ageRule_def Let_def generateNodeId_def comparisonOps_def showInt_def
        showNat.simps digitChar_def isComplex_def nth_opt_def)

text \<open>Claim C2, as stated, fails: the label of the node is not \<^verbatim>\<open>$age >= 18\<close>.\<close>

theorem parseRuleToTree_age_rule_label_not_dollar:
  "n_label (fieldsOf (fst (the (parseRuleToTree 1 ageRule None 0 [] 0)))) \<noteq> ''$age >= 18''"
  by (simp add: ageRule_def Let_def generateNodeId_def comparisonOps_def showInt_def
        showNat.simps digitChar_def isComplex_def nth_opt_def nodeLiteral_def dq_def)

text \<open>A call at depth 0 sets the counter to 0 before anything else, so what it does
  does not depend on the counter it finds.\<close>

lemma parseRuleToTree_reproducible:
  "parseRuleToTree fuel r parentId 0 p c1 = parseRuleToTree fuel r parentId 0 p c2"
  by (cases fuel) simp_all

text \<open>
  Claim C6. Two successive calls are to give two trees with the same shape, labels,
  kinds and ids, for every rule. For a chained \<^verbatim>\<open>if\<close> with six operands neither call
  gives a tree: as for the rule of claim C1, the decomposition passes from two
  operands to none and recurses without end, whatever the bound on the depth of the
  call stack and whatever the counter.
\<close>

theorem parseRuleToTree_twice_never_returns:
  "parseRuleToTree fuel1 sixChain None 0 [] c1 = None \<and>
   parseRuleToTree fuel2 sixChain None 0 [] c2 = None"
proof -
  have "parseRuleToTree fuel sixChain None 0 [] c = None" for fuel c
  proof (cases fuel)
    case 0
    then show ?thesis by simp
  next
    case (Suc n)
    have chain: "createChainedIfNode k
                   [JObj [(''var'', JStr ''a'')], JStr ''A'', JObj [(''var'', JStr ''b'')], JStr ''B'',
                    JObj [(''var'', JStr ''c'')], JStr ''C''] None 0 [] sixChain 0 = None" for k
      by (rule createChainedIfNode_even) simp
    show ?thesis
    proof (cases n)
      case 0
      with Suc show ?thesis by (simp add: sixChain_def)
    next
      case (Suc m)
      with \<open>fuel = Suc n\<close> chain show ?thesis by (simp add: sixChain_def)
    qed
  qed
  then show ?thesis
    by simp
qed

section \<open>Properties of the Label Formatter\<close>

lemma showNat_nonempty: "showNat n \<noteq> []"
  by (subst showNat.simps) simp

lemma showInt_nonempty: "showInt i \<noteq> []"
  by (simp add: showInt_def showNat_nonempty)

lemma join_empty_iff: "sep \<noteq> [] \<Longrightarrow> join sep xs = [] \<longleftrightarrow> xs = [] \<or> xs = [[]]"
  by (induction sep xs rule: join.induct) simp_all

text \<open>The label is empty for the rules of \<open>emptyLabel\<close> and for no other rule.\<close>

lemma buildLabel_empty_iff: "buildLabel r c = [] \<longleftrightarrow> emptyLabel r"
proof (induction r c rule: buildLabel.induct)
  case (7 operator operands rest cpt)
  show ?case
  proof (cases operands)
    case (JArr xs)
    show ?thesis
    proof (cases xs)
      case Nil
      with JArr show ?thesis
        by (auto simp: comparisonOps_def arithmeticOps_def dq_def opNames_def)
    next
      case (Cons x ys)
      show ?thesis
      proof (cases ys)
        case Nil
        with Cons JArr "7.IH" show ?thesis
          by (auto simp: comparisonOps_def arithmeticOps_def dq_def opNames_def nth_opt_def)
      next
        case (Cons y zs)
        with \<open>xs = x # ys\<close> JArr show ?thesis
          by (auto simp: comparisonOps_def arithmeticOps_def dq_def opNames_def nth_opt_def
                itemsLabel_def split: json.splits)
      qed
    qed
  qed (auto simp: comparisonOps_def arithmeticOps_def dq_def opNames_def showInt_nonempty)
qed (auto simp: dq_def showInt_nonempty showBool_def itemsLabel_def showSpecial_def
      split: special.splits)

text \<open>
  Claim C3. The label of every rule is to be a non-empty string. For an \<^verbatim>\<open>and\<close>
  with an empty operand list the label is the join of no labels: the empty string.
\<close>

theorem buildLabel_and_empty:
  "buildLabel (JObj [(''and'', JArr [])]) False = []"
  by simp

section \<open>Properties of the fit zoom\<close>

lemma calculateDimensionsLoop_ge:
  "calculateDimensionsLoop ns (mx, my) = (mx', my') \<Longrightarrow> mx \<le> mx' \<and> my \<le> my'"
proof (induction ns arbitrary: mx my)
  case Nil
  then show ?case by simp
next
  case (Cons a ns)
  from Cons.prems Cons.IH show ?case
    by (fastforce simp: Let_def)
qed

lemma calculateTreeLayout_size:
  "24 \<le> width (calculateTreeLayout tree config) \<and> 50 \<le> height (calculateTreeLayout tree config)"
proof -
  have "24 \<le> fst (calculateDimensions ns) \<and> 50 \<le> snd (calculateDimensions ns)" for ns
  proof -
    obtain mx my where l: "calculateDimensionsLoop ns (0, 0) = (mx, my)"
      by (cases "calculateDimensionsLoop ns (0, 0)")
    from calculateDimensionsLoop_ge [OF l] l show ?thesis
      by (simp add: calculateDimensions_def DEFAULT_CONFIG_def)
  qed
  then show ?thesis
    by (simp add: calculateTreeLayout_def Let_def split: prod.split) (metis fst_conv snd_conv)
qed

text \<open>
  Claim C7, as the source has it. For every layout that \<open>calculateTreeLayout\<close>
  returns, the zoom is the least of (viewport width - 2 padding) / canvas width,
  (viewport height - 2 padding) / canvas height and 1: the padding, 40 by default,
  is taken off the viewport on both sides before the division. The zoom is never
  greater than 1.
\<close>

theorem calculateFitZoom_padded:
  "calculateFitZoom (calculateTreeLayout tree config) vw vh padding =
     Fin (min (min ((vw - padding * 2) / width (calculateTreeLayout tree config))
                   ((vh - padding * 2) / height (calculateTreeLayout tree config))) 1)
   \<and> \<not> jsGreater (calculateFitZoom (calculateTreeLayout tree config) vw vh padding) (Fin 1)"
proof -
  from calculateTreeLayout_size [of tree config]
  have "width (calculateTreeLayout tree config) \<noteq> 0" "height (calculateTreeLayout tree config) \<noteq> 0"
    by auto
  then show ?thesis
    by (simp add: calculateFitZoom_def jsDiv_def Let_def)
qed

text \<open>Claim C7, as stated, fails: a viewport of exactly the size of the canvas of a
  one-node tree, 144 by 94, is not shown at the ratio 1 of the two sizes, but at
  7/47.\<close>

theorem calculateFitZoom_not_plain_ratio:
  "calculateFitZoom (calculateTreeLayout leafX noConfig) 144 94 DEFAULT_PADDING
     \<noteq> Fin (min (min (144 / width (calculateTreeLayout leafX noConfig))
                      (94 / height (calculateTreeLayout leafX noConfig))) 1)"
  by (simp add: calculateFitZoom_def calculateTreeLayout_def leafX_def nodeLiteral_def
        noConfig_def withDefaults_def overDefault_def DEFAULT_CONFIG_def DEFAULT_PADDING_def
        calculateNodeWidth_def CHAR_WIDTH_def NODE_PADDING_def MIN_NODE_WIDTH_def
        MAX_NODE_WIDTH_def orElse_def calculateDimensions_def jsDiv_def Let_def)

section \<open>Properties of the Flowchart Emitter\<close>

text \<open>What \<open>escapeLabel\<close> returns: the first 50 of the characters that are kept, each
  replaced as the specification says. So it has at most 50 characters, and none of
  them is a double quote, an angle bracket, a curly brace, a pipe or a newline.\<close>

lemma escapeLabel_pinned: "escapeLabel s = take 50 (map replaceChar (filter keptChar s))"
proof -
  have "map (\<lambda>c. if c = CHR ''|'' then CHR ''/'' else c)
          (map (\<lambda>c. if c = CHR 0x0A then CHR '' '' else c)
            (filter (\<lambda>c. c \<notin> set ''<>{}'')
              (map (\<lambda>c. if c = CHR 0x22 then CHR 0x27 else c) s))) =
        map replaceChar (filter keptChar s)"
    by (induction s) (auto simp: replaceChar_def keptChar_def)
  then show ?thesis
    by (simp add: escapeLabel_def)
qed

lemma escapeLabel_safe:
  "length (escapeLabel s) \<le> 50 \<and>
   set (escapeLabel s) \<inter>
     {CHR 0x22, CHR ''<'', CHR ''>'', CHR ''{'', CHR ''}'', CHR ''|'', CHR 0x0A} = {}"
proof -
  have "set (escapeLabel s) \<subseteq> set (map replaceChar (filter keptChar s))"
    unfolding escapeLabel_pinned by (rule set_take_subset)
  moreover have "length (escapeLabel s) \<le> 50"
    by (simp add: escapeLabel_pinned)
  ultimately show ?thesis
    by (auto simp: replaceChar_def keptChar_def split: if_splits)
qed

text \<open>The characters that \<open>escapeLabel\<close> lets through include the round and the square
  brackets.\<close>

lemma escapeLabel_keeps_brackets: "escapeLabel ''a])'' = ''a])''"
  by (simp add: escapeLabel_def)

text \<open>
  Claim C8. The lines that are built from labels that \<open>escapeLabel\<close> has returned are
  to be well-formed. For the rule that is the string \<^verbatim>\<open>a])\<close> the emitter declares
  one node, and its line is \<^verbatim>\<open>n1(['a])'])\<close>: the label stands between the
  brackets of the shape without quotes, and its \<^verbatim>\<open>])\<close> closes the shape before
  the label ends.
\<close>

theorem toMermaidFlowchart_bracket_string:
  "toMermaidFlowchart bracketRule options =
     join [CHR 0x0A]
       (headerLines (overDefault (o_orientation options) TD) @
        [''    n1(['' @ [CHR 0x27] @ ''a])'' @ [CHR 0x27] @ ''])'', []])"
  by (simp add: toMermaidFlowchart_def flowchartLines_def bracketRule_def Let_def
        declareNode_def generateNodeIdM_def pushLine_def connectParent_def escapeLabel_def
        dq_def showNat.simps digitChar_def)

text \<open>In that line a bracket closes nothing. The lines for the rule of claim C9, where
  every label stands between double quotes, have their brackets balanced.\<close>

lemma bracket_string_line_unbalanced:
  "\<not> bracketsBalanced (''    n1(['' @ [CHR 0x27] @ ''a])'' @ [CHR 0x27] @ ''])'')"
  by (simp add: bracketsBalanced_def)

lemma if_rule_lines_balanced:
  "list_all bracketsBalanced (flowchartLines ifRule noOptions)"
  by (simp add: flowchartLines_def ifRule_def noOptions_def overDefault_def headerLines_def
        showOrientation_def Let_def generateNodeIdM_def pushLine_def pushConnection_def
        connectParent_def classLine_def edgeLine_def escapeLabel_def dq_def comparisonOps_def
        formatVarName_def orData_def showInt_def showNat.simps digitChar_def yesLabel_def
        noLabel_def bracketsBalanced_def)

text \<open>A comparison node is declared with the operator as its label, from which
  \<open>escapeLabel\<close> takes the angle brackets: for \<^verbatim>\<open>{">": [1, 2]}\<close> the label is
  empty.\<close>

lemma greater_rule_lines:
  "flowchartLines greaterRule noOptions =
     headerLines TD @
     [''    n1{}'', ''    n2([1])'', ''    n3([2])'', [], ''    n1 --> n2'', ''    n1 --> n3'']"
  by (simp add: flowchartLines_def greaterRule_def noOptions_def overDefault_def Let_def
        declareNode_def generateNodeIdM_def pushLine_def pushConnection_def connectParent_def
        escapeLabel_def showInt_def showNat.simps digitChar_def)

text \<open>
  Claim C9. For the rule \<^verbatim>\<open>{"if": [{">": [{"var": "age"}, 18]}, "adult", "minor"]}\<close>
  the emitter writes, after the header: one diamond \<^verbatim>\<open>n1\<close> of class condition; two
  terminators \<^verbatim>\<open>n2\<close> and \<^verbatim>\<open>n3\<close> of class result, which read \<^verbatim>\<open>adult\<close> and \<^verbatim>\<open>minor\<close>
  between apostrophes; and two edges from \<^verbatim>\<open>n1\<close>, the first labelled with the
  check mark and \<^verbatim>\<open>Yes\<close> to \<^verbatim>\<open>n2\<close>, the second labelled with the cross and
  \<^verbatim>\<open>No\<close> to \<^verbatim>\<open>n3\<close>. Nothing else is declared, whatever the options.
\<close>

theorem toMermaidFlowchart_if_rule:
  "toMermaidFlowchart ifRule options =
     join [CHR 0x0A]
       (headerLines (overDefault (o_orientation options) TD) @
        [''    n1{'' @ dq ''age  18'' @ ''}'',
         ''    class n1 condition'',
         ''    n2(['' @ dq ([CHR 0x27] @ ''adult'' @ [CHR 0x27]) @ ''])'',
         ''    class n2 result'',
         ''    n3(['' @ dq ([CHR 0x27] @ ''minor'' @ [CHR 0x27]) @ ''])'',
         ''    class n3 result'',
         [],
         ''    n1 -->|'' @ dq yesLabel @ ''| n2'',
         ''    n1 -->|'' @ dq noLabel @ ''| n3''])"
  by (simp add: toMermaidFlowchart_def flowchartLines_def ifRule_def Let_def
        generateNodeIdM_def pushLine_def pushConnection_def connectParent_def
        classLine_def edgeLine_def escapeLabel_def dq_def comparisonOps_def
        formatVarName_def orData_def showInt_def showNat.simps digitChar_def)

section \<open>Properties of the expansion toggles\<close>

text \<open>The copy is the tree with the two fields of type \<^verbatim>\<open>unknown\<close> of every node taken
  through JSON text. Copying twice is copying once, and a tree whose values JSON text
  can hold is its own copy.\<close>

lemma jsonClone_mapFields: "jsonClone t = mapFields cloneFields t"
  by (induction t) simp

lemma jsonRoundTrip_idem: "jsonRoundTrip (jsonRoundTrip v) = jsonRoundTrip v"
  by (induction v) (auto simp: comp_def)

lemma representable_roundTrip: "representable v \<Longrightarrow> jsonRoundTrip v = v"
  by (induction v) (auto simp: list_all_iff intro!: map_idI)

lemma cloneFields_idem: "cloneFields (cloneFields d) = cloneFields d"
  by (simp add: cloneFields_def option.map_comp comp_def jsonRoundTrip_idem)

lemma safeFields_cloneFields: "safeFields d \<Longrightarrow> cloneFields d = d"
  by (auto simp: safeFields_def cloneFields_def representable_roundTrip split: option.splits)

lemma cloneFields_keeps:
  "n_id (cloneFields d) = n_id d" "n_type (cloneFields d) = n_type d"
  "n_label (cloneFields d) = n_label d" "n_operator (cloneFields d) = n_operator d"
  "n_expanded (cloneFields d) = n_expanded d"
  by (simp_all add: cloneFields_def)

lemma jsonClone_idem: "jsonClone (jsonClone t) = jsonClone t"
  by (induction t) (simp add: cloneFields_idem)

lemma jsonSafe_jsonClone: "jsonSafe t \<Longrightarrow> jsonClone t = t"
  by (induction t) (simp add: safeFields_cloneFields list_all_iff map_idI)

text \<open>The references of \<open>flattenRefs\<close> lead to the nodes of \<open>flattenTree\<close>, in the same
  order.\<close>

lemma flattenRefs_nodes:
  "map (nodeAt t) (flattenRefs t) = map Some (flattenTree t)"
  "length pre = k \<Longrightarrow>
   map (nodeAt (TreeNode d (pre @ cs))) (flattenRefsFrom k cs) =
     map Some (concat (map flattenTree cs))"
proof (induction t and k cs arbitrary: and pre d rule: flattenRefs_flattenRefsFrom.induct)
  case (1 d cs)
  from "1.IH" [of "[]" d] show ?case by simp
next
  case (2 k)
  show ?case by simp
next
  case (3 k c cs)
  have a: "map (nodeAt (TreeNode d (pre @ c # cs))) (map ((#) k) (flattenRefs c)) =
        map (nodeAt c) (flattenRefs c)"
    using "3.prems" by (auto simp: comp_def nth_append)
  from "3.IH"(2) [of "pre @ [c]" d] "3.prems"
  have b: "map (nodeAt (TreeNode d (pre @ c # cs))) (flattenRefsFrom (Suc k) cs) =
        map Some (concat (map flattenTree cs))"
    by simp
  from a b "3.IH"(1) show ?case
    by simp
qed

lemma mapFields_updateAt:
  "(\<And>d. f (g d) = f d) \<Longrightarrow> mapFields f (updateAt ref g t) = mapFields f t"
proof (induction ref g t rule: updateAt.induct)
  case (1 g d cs)
  then show ?case by simp
next
  case (2 k ks g d cs)
  show ?case
  proof (cases "k < length cs")
    case True
    with 2 have "mapFields f (updateAt ks g (cs ! k)) = mapFields f (cs ! k)"
      by simp
    with True show ?thesis
      by (simp add: map_update list_update_same_conv)
  next
    case False
    then show ?thesis by simp
  qed
qed

lemma fold_updateAt_child:
  "k < length xs \<Longrightarrow>
   fold (\<lambda>ref. updateAt ref f) (map ((#) k) ps) (TreeNode d xs) =
   TreeNode d (xs[k := fold (\<lambda>ref. updateAt ref f) ps (xs ! k)])"
  by (induction ps arbitrary: xs) simp_all

lemma fold_flattenRefsFrom:
  assumes "\<And>c. c \<in> set cs \<Longrightarrow> fold (\<lambda>ref. updateAt ref f) (flattenRefs c) c = mapFields f c"
  shows "fold (\<lambda>ref. updateAt ref f) (flattenRefsFrom (length pre) cs) (TreeNode d (pre @ cs)) =
         TreeNode d (pre @ map (mapFields f) cs)"
  using assms
proof (induction cs arbitrary: pre)
  case Nil
  show ?case by simp
next
  case (Cons c cs)
  have c: "fold (\<lambda>ref. updateAt ref f) (flattenRefs c) c = mapFields f c"
    using Cons.prems by simp
  have step: "fold (\<lambda>ref. updateAt ref f) (map ((#) (length pre)) (flattenRefs c))
                (TreeNode d (pre @ c # cs)) = TreeNode d ((pre @ [mapFields f c]) @ cs)"
    by (simp add: fold_updateAt_child c)
  have rest: "fold (\<lambda>ref. updateAt ref f) (flattenRefsFrom (length (pre @ [mapFields f c])) cs)
                (TreeNode d ((pre @ [mapFields f c]) @ cs)) =
              TreeNode d ((pre @ [mapFields f c]) @ map (mapFields f) cs)"
    by (rule Cons.IH) (simp add: Cons.prems)
  show ?case
    using step rest by simp
qed

lemma fold_flattenRefs:
  "fold (\<lambda>ref. updateAt ref f) (flattenRefs t) t = mapFields f t"
proof (induction t)
  case (TreeNode d cs)
  have "fold (\<lambda>ref. updateAt ref f) (flattenRefsFrom (length ([]::TreeNode list)) cs)
          (TreeNode (f d) ([] @ cs)) = TreeNode (f d) ([] @ map (mapFields f) cs)"
    by (rule fold_flattenRefsFrom) (rule TreeNode.IH)
  then show ?case by simp
qed

lemma collapseAllNodes_eq:
  "collapseAllNodes (TreeNode d cs) =
     TreeNode ((cloneFields d)\<lparr> n_expanded := True \<rparr>)
       (map (mapFields (\<lambda>d. d\<lparr> n_expanded := False \<rparr>)) (map jsonClone cs))"
proof -
  let ?cs = "map jsonClone cs"
  let ?d = "(cloneFields d)\<lparr> n_expanded := True \<rparr>"
  have "fold (\<lambda>ref. updateAt ref (\<lambda>d. d\<lparr> n_expanded := False \<rparr>))
          (flattenRefsFrom (length ([]::TreeNode list)) ?cs) (TreeNode ?d ([] @ ?cs)) =
        TreeNode ?d ([] @ map (mapFields (\<lambda>d. d\<lparr> n_expanded := False \<rparr>)) ?cs)"
    by (rule fold_flattenRefsFrom) (rule fold_flattenRefs)
  then show ?thesis
    by (simp add: collapseAllNodes_def)
qed

lemma expandAllNodes_eq:
  "expandAllNodes t = mapFields (\<lambda>d. d\<lparr> n_expanded := True \<rparr>) (jsonClone t)"
  by (simp add: expandAllNodes_def fold_flattenRefs)

lemma nodeAt_mapFields:
  "nodeAt (mapFields f t) ref = map_option (mapFields f) (nodeAt t ref)"
proof (induction t ref rule: nodeAt.induct)
  case (1 t)
  show ?case by simp
next
  case (2 d cs k ks)
  then show ?case by simp
qed

lemma mapFields_comp: "mapFields f (mapFields g t) = mapFields (f \<circ> g) t"
  by (induction t) simp

text \<open>
  Claim C10, as the source has it. In the tree that \<open>collapseAllNodes\<close> returns, the
  root is expanded and every other node, that is the node at any reference other than
  the empty one, is collapsed; the shape and all fields other than \<^verbatim>\<open>expanded\<close> are
  those of the copy through JSON text, and those of the argument itself when JSON
  text can hold all its values.
\<close>

theorem collapseAllNodes_root_only:
  "n_expanded (fieldsOf (collapseAllNodes t)) \<and>
   (\<forall>ref n. ref \<noteq> [] \<and> nodeAt (collapseAllNodes t) ref = Some n \<longrightarrow> \<not> n_expanded (fieldsOf n)) \<and>
   forgetExpanded (collapseAllNodes t) = forgetExpanded (jsonClone t) \<and>
   (jsonSafe t \<longrightarrow> forgetExpanded (collapseAllNodes t) = forgetExpanded t)"
proof (cases t)
  case (TreeNode d cs)
  let ?off = "\<lambda>d::NodeData. d\<lparr> n_expanded := False \<rparr>"
  have root: "n_expanded (fieldsOf (collapseAllNodes t))"
    by (simp add: TreeNode collapseAllNodes_eq)
  have others: "\<not> n_expanded (fieldsOf n)"
    if "ref \<noteq> []" and "nodeAt (collapseAllNodes t) ref = Some n" for ref n
  proof -
    from that(1) obtain k ks where ref: "ref = k # ks"
      by (cases ref) auto
    from that(2) have k: "k < length cs"
      and "nodeAt (mapFields ?off (jsonClone (cs ! k))) ks = Some n"
      by (auto simp: TreeNode collapseAllNodes_eq ref split: if_splits)
    then obtain m where "n = mapFields ?off m"
      by (auto simp: nodeAt_mapFields)
    then show ?thesis
      by (cases m) simp
  qed
  have same: "forgetExpanded (collapseAllNodes t) = forgetExpanded (jsonClone t)"
    by (simp add: TreeNode collapseAllNodes_eq forgetExpanded_def mapFields_comp comp_def)
  then have safe: "forgetExpanded (collapseAllNodes t) = forgetExpanded t" if "jsonSafe t"
    using that by (simp add: jsonSafe_jsonClone)
  from root others same safe show ?thesis
    by blast
qed

theorem collapseAllNodes_root_only_witness:
  "[1, 0] \<noteq> ([]::nat list) \<and>
   nodeAt (collapseAllNodes familyTree) [1, 0] =
     Some (TreeNode (nodeLiteral ''node-4'' Value ''c'' None None (Some ''node-3'') 2 [] False) []) \<and>
   \<not> n_expanded (fieldsOf
       (TreeNode (nodeLiteral ''node-4'' Value ''c'' None None (Some ''node-3'') 2 [] False) [])) \<and>
   n_expanded (fieldsOf (collapseAllNodes familyTree)) \<and>
   jsonSafe familyTree \<and>
   forgetExpanded (collapseAllNodes familyTree) = forgetExpanded familyTree"
proof -
  have at: "nodeAt (collapseAllNodes familyTree) [1, 0] =
     Some (TreeNode (nodeLiteral ''node-4'' Value ''c'' None None (Some ''node-3'') 2 [] False) [])"
    by (simp add: familyTree_def collapseAllNodes_eq nodeLiteral_def cloneFields_def)
  have ne: "[1, 0] \<noteq> ([]::nat list)"
    by simp
  have safe: "jsonSafe familyTree"
    by (simp add: familyTree_def nodeLiteral_def safeFields_def)
  from collapseAllNodes_root_only [of familyTree]
  have root: "n_expanded (fieldsOf (collapseAllNodes familyTree))"
    and others: "\<forall>ref n. ref \<noteq> [] \<and> nodeAt (collapseAllNodes familyTree) ref = Some n
                   \<longrightarrow> \<not> n_expanded (fieldsOf n)"
    and same: "jsonSafe familyTree \<longrightarrow>
                 forgetExpanded (collapseAllNodes familyTree) = forgetExpanded familyTree"
    by blast+
  from others ne at
  have "\<not> n_expanded (fieldsOf
       (TreeNode (nodeLiteral ''node-4'' Value ''c'' None None (Some ''node-3'') 2 [] False) []))"
    by blast
  with ne at root safe same show ?thesis
    by blast
qed

lemma infTree_built: "parseRuleToTree 1 infRule None 0 [] 0 = Some (infTree, 1)"
  by (simp add: infRule_def infTree_def Let_def generateNodeId_def comparisonOps_def
        showSpecial_def showNat.simps digitChar_def isComplex_def nth_opt_def)

text \<open>
  Claim C10, as stated, fails: in the tree the parser builds for a rule with the
  number \<^verbatim>\<open>Infinity\<close>, \<open>collapseAllNodes\<close> changes the \<^verbatim>\<open>value\<close> of the root, where
  \<^verbatim>\<open>null\<close> takes the place of the number.
\<close>

theorem collapseAllNodes_changes_value:
  "parseRuleToTree 1 infRule None 0 [] 0 = Some (infTree, 1) \<and>
   forgetExpanded (collapseAllNodes infTree) \<noteq> forgetExpanded infTree"
proof -
  have "forgetExpanded (collapseAllNodes infTree) \<noteq> forgetExpanded infTree"
    by (simp add: infTree_def infRule_def collapseAllNodes_eq forgetExpanded_def nodeLiteral_def
          cloneFields_def)
  with infTree_built show ?thesis
    by simp
qed

lemma findInChildren_Some:
  "findInChildren cs k i = Some ref \<Longrightarrow>
   \<exists>j r. ref = (k + j) # r \<and> j < length cs \<and> findNodeById (cs ! j) i = Some r"
proof (induction cs arbitrary: k)
  case Nil
  then show ?case by simp
next
  case (Cons c cs)
  show ?case
  proof (cases "findNodeById c i")
    case None
    with Cons.prems have "findInChildren cs (Suc k) i = Some ref"
      by simp
    from Cons.IH [OF this] obtain j r
      where "ref = (Suc k + j) # r" "j < length cs" "findNodeById (cs ! j) i = Some r"
      by blast
    then have "ref = (k + Suc j) # r \<and> Suc j < length (c # cs) \<and>
               findNodeById ((c # cs) ! Suc j) i = Some r"
      by simp
    then show ?thesis by blast
  next
    case (Some r)
    with Cons.prems have "ref = (k + 0) # r \<and> 0 < length (c # cs) \<and>
                          findNodeById ((c # cs) ! 0) i = Some r"
      by simp
    then show ?thesis by blast
  qed
qed

lemma findNodeById_nodeAt:
  "findNodeById t i = Some ref \<Longrightarrow> \<exists>n. nodeAt t ref = Some n \<and> n_id (fieldsOf n) = i"
proof (induction t arbitrary: ref)
  case (TreeNode d cs)
  show ?case
  proof (cases "n_id d = i")
    case True
    with TreeNode.prems show ?thesis by simp
  next
    case False
    with TreeNode.prems have "findInChildren cs 0 i = Some ref"
      by simp
    from findInChildren_Some [OF this] obtain j r
      where ref: "ref = j # r" and j: "j < length cs" and r: "findNodeById (cs ! j) i = Some r"
      by auto
    from j have "cs ! j \<in> set cs" by simp
    from TreeNode.IH [OF this r] ref j show ?thesis
      by simp
  qed
qed

lemma findInChildren_None:
  "findInChildren cs k i = None \<longleftrightarrow> (\<forall>c \<in> set cs. findNodeById c i = None)"
  by (induction cs arbitrary: k) (auto split: option.splits)

lemma findNodeById_None:
  "findNodeById t i = None \<longleftrightarrow> i \<notin> n_id ` fieldsOf ` set (flattenTree t)"
proof (induction t)
  case (TreeNode d cs)
  have "findInChildren cs 0 i = None \<longleftrightarrow> (\<forall>c \<in> set cs. i \<notin> n_id ` fieldsOf ` set (flattenTree c))"
    using TreeNode.IH by (simp add: findInChildren_None)
  then show ?case
    by auto
qed

lemma findInChildren_update:
  "k < length cs \<Longrightarrow> findNodeById c' i = findNodeById (cs ! k) i \<Longrightarrow>
   findInChildren (cs[k := c']) j i = findInChildren cs j i"
proof (induction cs arbitrary: k j)
  case Nil
  then show ?case by simp
next
  case (Cons c cs)
  show ?case
  proof (cases k)
    case 0
    with Cons.prems show ?thesis by simp
  next
    case (Suc m)
    with Cons.prems have "m < length cs" "findNodeById c' i = findNodeById (cs ! m) i"
      by simp_all
    then have "findInChildren (cs[m := c']) (Suc j) i = findInChildren cs (Suc j) i"
      by (rule Cons.IH)
    with Suc show ?thesis by (simp split: option.split)
  qed
qed

lemma findNodeById_updateAt:
  "(\<And>d. n_id (g d) = n_id d) \<Longrightarrow> findNodeById (updateAt ref g t) i = findNodeById t i"
proof (induction ref g t rule: updateAt.induct)
  case (1 g d cs)
  then show ?case by simp
next
  case (2 k ks g d cs)
  show ?case
  proof (cases "k < length cs")
    case True
    with 2 have "findNodeById (updateAt ks g (cs ! k)) i = findNodeById (cs ! k) i"
      by simp
    with True show ?thesis
      by (simp add: findInChildren_update)
  next
    case False
    then show ?thesis by simp
  qed
qed

lemma updateAt_twice:
  "updateAt ref g (updateAt ref h t) = updateAt ref (g \<circ> h) t"
proof (induction ref h t rule: updateAt.induct)
  case (1 h d cs)
  show ?case by simp
next
  case (2 k ks h d cs)
  then show ?case by simp
qed

lemma updateAt_ident:
  "(\<And>d. g d = d) \<Longrightarrow> updateAt ref g t = t"
proof (induction ref g t rule: updateAt.induct)
  case (1 g d cs)
  then show ?case by simp
next
  case (2 k ks g d cs)
  then show ?case by (simp add: list_update_same_conv)
qed

lemma findNodeById_mapFields:
  "(\<And>d. n_id (f d) = n_id d) \<Longrightarrow> findNodeById (mapFields f t) i = findNodeById t i"
  "(\<And>d. n_id (f d) = n_id d) \<Longrightarrow>
     findInChildren (map (mapFields f) cs) k i = findInChildren cs k i"
  by (induction t i and cs k i rule: findNodeById_findInChildren.induct)
     (simp_all split: option.split)

lemma findNodeById_jsonClone: "findNodeById (jsonClone t) i = findNodeById t i"
  unfolding jsonClone_mapFields by (rule findNodeById_mapFields(1)) (simp add: cloneFields_def)

lemma mapFields_updateAt_commute:
  "(\<And>d. f (g d) = g (f d)) \<Longrightarrow> mapFields f (updateAt ref g t) = updateAt ref g (mapFields f t)"
proof (induction ref g t rule: updateAt.induct)
  case (1 g d cs)
  then show ?case by simp
next
  case (2 k ks g d cs)
  then show ?case by (simp add: map_update)
qed

lemma jsonClone_updateAt_flip:
  "jsonClone (updateAt ref flip t) = updateAt ref flip (jsonClone t)"
  unfolding jsonClone_mapFields
  by (rule mapFields_updateAt_commute) (simp add: cloneFields_def flip_def)

text \<open>Writing through a reference changes the fields of the node it leads to, and of
  no other node.\<close>

lemma nodeAt_updateAt:
  "nodeAt t r = Some n \<Longrightarrow>
   \<exists>n'. nodeAt (updateAt ref g t) r = Some n' \<and>
         fieldsOf n' = (if r = ref then g (fieldsOf n) else fieldsOf n)"
proof (induction ref g t arbitrary: r n rule: updateAt.induct)
  case (1 g d cs)
  then show ?case
    by (cases r) (auto split: if_splits)
next
  case (2 k ks g d cs)
  show ?case
  proof (cases "k < length cs")
    case False
    with "2.prems" show ?thesis
      by (cases r) (auto split: if_splits)
  next
    case True
    show ?thesis
    proof (cases r)
      case Nil
      with "2.prems" True show ?thesis by auto
    next
      case (Cons j js)
      with "2.prems" have j: "j < length cs" and at: "nodeAt (cs ! j) js = Some n"
        by (auto split: if_splits)
      show ?thesis
      proof (cases "j = k")
        case True
        from "2.IH" [OF \<open>k < length cs\<close> at [unfolded True]]
        obtain n' where "nodeAt (updateAt ks g (cs ! k)) js = Some n'"
          "fieldsOf n' = (if js = ks then g (fieldsOf n) else fieldsOf n)"
          by blast
        with True Cons \<open>k < length cs\<close> show ?thesis
          by simp
      next
        case False
        with Cons j at \<open>k < length cs\<close> show ?thesis
          by simp
      qed
    qed
  qed
qed

section \<open>The toggle on the store\<close>

lemma represents_append: "represents h r t \<Longrightarrow> represents (h @ ext) r t"
proof (induction t arbitrary: r)
  case (TreeNode d cs)
  from TreeNode.prems have r: "r < length h" "o_fields (h ! r) = d"
    and kids: "list_all2 (represents h) (o_children (h ! r)) cs"
    by simp_all
  from kids have "list_all2 (represents (h @ ext)) (o_children (h ! r)) cs"
    by (rule list.rel_mono_strong) (simp add: TreeNode.IH)
  with r show ?case
    by (simp add: nth_append)
qed

lemma copied_represents:
  "copied h lo r t \<Longrightarrow> represents h r t"
  "copiedRow h lo hi rs cs \<Longrightarrow> list_all2 (represents h) rs cs"
  by (induction h lo r t and h lo hi rs cs rule: copied_copiedRow.induct) simp_all

lemma copied_mono:
  "copied h lo r t \<Longrightarrow> lo \<le> r"
  "copiedRow h lo hi rs cs \<Longrightarrow> lo \<le> hi"
proof (induction h lo r t and h lo hi rs cs rule: copied_copiedRow.induct)
  case (3 h lo hi r rs c cs)
  then show ?case by simp
qed simp_all

lemma copied_append:
  "copied h lo r t \<Longrightarrow> copied (h @ ext) lo r t"
  "copiedRow h lo hi rs cs \<Longrightarrow> hi \<le> length h \<Longrightarrow> copiedRow (h @ ext) lo hi rs cs"
proof (induction h lo r t and h lo hi rs cs rule: copied_copiedRow.induct)
  case (1 h lo r d cs)
  then show ?case by (simp add: nth_append)
next
  case (3 h lo hi r rs c cs)
  then show ?case by simp
qed simp_all

text \<open>An assignment outside the addresses of a copied tree does not change it.\<close>

lemma copied_frame:
  "copied h lo r t \<Longrightarrow> a < lo \<or> r < a \<Longrightarrow> copied (h[a := x]) lo r t"
  "copiedRow h lo hi rs cs \<Longrightarrow> a < lo \<or> hi \<le> a \<Longrightarrow> copiedRow (h[a := x]) lo hi rs cs"
proof (induction h lo r t and h lo hi rs cs rule: copied_copiedRow.induct)
  case (1 h lo r d cs)
  from "1.prems" have r: "lo \<le> r" "r < length h" "o_fields (h ! r) = d"
    and row: "copiedRow h lo r (o_children (h ! r)) cs" and a: "a \<noteq> r" "a < lo \<or> r \<le> a"
    by auto
  from "1.IH" [OF row a(2)] r a(1) show ?case
    by simp
next
  case (3 h lo hi r rs c cs)
  from "3.prems" have r: "r < hi" and c: "copied h lo r c" and rest: "copiedRow h (Suc r) hi rs cs"
    by simp_all
  from "3.prems"(2) r have "a < lo \<or> r < a" "a < Suc r \<or> hi \<le> a"
    using copied_mono(1) [OF c] by auto
  with "3.IH" c rest r show ?case
    by simp
qed simp_all

lemma allocTree_copied:
  "allocTree t h = (r, h1) \<Longrightarrow>
     copied h1 (length h) r t \<and> length h1 = Suc r \<and> take (length h) h1 = h"
  "allocTrees cs h = (rs, h1) \<Longrightarrow>
     copiedRow h1 (length h) (length h1) rs cs \<and> length h \<le> length h1 \<and> take (length h) h1 = h"
proof (induction t h and cs h arbitrary: r h1 and rs h1 rule: allocTree_allocTrees.induct)
  case (1 d cs h)
  obtain rs h' where a: "allocTrees cs h = (rs, h')"
    by (cases "allocTrees cs h")
  from "1.IH" [OF a] have row: "copiedRow h' (length h) (length h') rs cs"
    and len: "length h \<le> length h'" and pre: "take (length h) h' = h"
    by simp_all
  from "1.prems" a have r: "r = length h'" and h1: "h1 = h' @ [\<lparr> o_fields = d, o_children = rs \<rparr>]"
    by simp_all
  from copied_append(2) [OF row, of "[\<lparr> o_fields = d, o_children = rs \<rparr>]"]
  have "copiedRow h1 (length h) (length h') rs cs"
    by (simp add: h1)
  with len pre show ?case
    by (simp add: r h1)
next
  case (2 h)
  then show ?case by simp
next
  case (3 c cs h)
  obtain r' h' where a: "allocTree c h = (r', h')"
    by (cases "allocTree c h")
  obtain rs' h'' where b: "allocTrees cs h' = (rs', h'')"
    by (cases "allocTrees cs h'")
  from "3.IH"(1) [OF a] have c: "copied h' (length h) r' c" and l1: "length h' = Suc r'"
    and p1: "take (length h) h' = h"
    by simp_all
  from "3.IH"(2) [OF a [symmetric] refl b]
  have row: "copiedRow h'' (length h') (length h'') rs' cs" and l2: "length h' \<le> length h''"
    and p2: "take (length h') h'' = h'"
    by simp_all
  from p2 have ext: "h' @ drop (length h') h'' = h''"
    by (metis append_take_drop_id)
  have "copied (h' @ drop (length h') h'') (length h) r' c"
    using c by (rule copied_append(1))
  then have c': "copied h'' (length h) r' c"
    by (simp only: ext)
  from copied_mono(1) [OF c] have "length h \<le> r'" .
  with l1 have le: "length h \<le> length h'" by simp
  then have "take (length h) (take (length h') h'') = take (length h) h''"
    by (simp add: min_def)
  with p1 p2 have p3: "take (length h) h'' = h"
    by simp
  from "3.prems" a b have "rs = r' # rs'" "h1 = h''"
    by simp_all
  with c' row l1 l2 le p3 show ?case
    by simp
qed

lemma copiedRow_length: "copiedRow h lo hi rs cs \<Longrightarrow> length rs = length cs"
proof (induction rs arbitrary: lo cs)
  case Nil
  then show ?case by (cases cs) simp_all
next
  case (Cons r rs)
  then show ?case by (cases cs) auto
qed


lemma addrAt_root: "r < length h \<Longrightarrow> addrAt h r [] = Some r"
  by simp

text \<open>Assigning the fields of the object that a reference leads to within a copied
  tree gives the copied tree with the fields of the node at that reference changed:
  the objects of the copy are not shared, so no other node changes.\<close>

lemma copied_setFields:
  "copied h lo r t \<Longrightarrow> nodeAt t p = Some n \<Longrightarrow>
     \<exists>a. addrAt h r p = Some a \<and> lo \<le> a \<and> a \<le> r \<and>
         copied (setFields g a h) lo r (updateAt p g t)"
proof (induction p arbitrary: t lo r n)
  case Nil
  obtain d cs where t: "t = TreeNode d cs" by (cases t)
  from Nil.prems(1) have r: "lo \<le> r" "r < length h" "o_fields (h ! r) = d"
    and row: "copiedRow h lo r (o_children (h ! r)) cs"
    by (simp_all add: t)
  from copied_frame(2) [OF row, of r] have "copiedRow (setFields g r h) lo r (o_children (h ! r)) cs"
    by (simp add: setFields_def)
  with r have "copied (setFields g r h) lo r (updateAt [] g t)"
    by (simp add: t setFields_def)
  with r show ?case
    by simp
next
  case (Cons k ks)
  obtain d cs where t: "t = TreeNode d cs" by (cases t)
  from Cons.prems(1) have r: "lo \<le> r" "r < length h" "o_fields (h ! r) = d"
    and row: "copiedRow h lo r (o_children (h ! r)) cs"
    by (simp_all add: t)
  from Cons.prems(2) have k: "k < length cs" and at: "nodeAt (cs ! k) ks = Some n"
    by (auto simp: t split: if_splits)
  note deeper = Cons.IH
  have rowStep: "\<exists>a. addrAt h (rs ! k) ks = Some a \<and> lo' \<le> a \<and> a < hi \<and>
                    copiedRow (setFields g a h) lo' hi rs (cs'[k := updateAt ks g (cs' ! k)])"
    if "copiedRow h lo' hi rs cs'" "k < length cs'" "nodeAt (cs' ! k) ks = Some n"
    for lo' hi rs cs' k
    using that
  proof (induction rs arbitrary: lo' cs' k)
    case Nil
    then show ?case by (cases cs') simp_all
  next
    case (Cons r' rs')
    from Cons.prems(1,2) obtain c cs'' where cs': "cs' = c # cs''"
      by (cases cs') auto
    from Cons.prems(1) have r': "r' < hi" and c: "copied h lo' r' c"
      and rest: "copiedRow h (Suc r') hi rs' cs''"
      by (simp_all add: cs')
    show ?case
    proof (cases k)
      case 0
      with Cons.prems(3) have "nodeAt c ks = Some n"
        by (simp add: cs')
      from deeper [OF c this] obtain a
        where a: "addrAt h r' ks = Some a" "lo' \<le> a" "a \<le> r'"
          "copied (setFields g a h) lo' r' (updateAt ks g c)"
        by blast
      from copied_frame(2) [OF rest, of a] a(3)
      have "copiedRow (setFields g a h) (Suc r') hi rs' cs''"
        by (simp add: setFields_def)
      with a r' 0 show ?thesis
        by (auto simp: cs')
    next
      case (Suc k')
      with Cons.prems(2,3) have "k' < length cs''" "nodeAt (cs'' ! k') ks = Some n"
        by (simp_all add: cs')
      from Cons.IH [OF rest this] obtain a
        where a: "addrAt h (rs' ! k') ks = Some a" "Suc r' \<le> a" "a < hi"
          "copiedRow (setFields g a h) (Suc r') hi rs' (cs''[k' := updateAt ks g (cs'' ! k')])"
        by blast
      from copied_frame(1) [OF c, of a] a(2)
      have "copied (setFields g a h) lo' r' c"
        by (simp add: setFields_def)
      moreover from copied_mono(1) [OF c] a(2) have "lo' \<le> a"
        by simp
      ultimately show ?thesis
        using a r' Suc by (auto simp: cs')
    qed
  qed
  from rowStep [OF row k at] obtain a
    where a: "addrAt h (o_children (h ! r) ! k) ks = Some a" "lo \<le> a" "a < r"
      "copiedRow (setFields g a h) lo r (o_children (h ! r)) (cs[k := updateAt ks g (cs ! k)])"
    by blast
  from copiedRow_length [OF row] k have "k < length (o_children (h ! r))"
    by simp
  with a r k have "addrAt h r (k # ks) = Some a \<and> lo \<le> a \<and> a \<le> r \<and>
                   copied (setFields g a h) lo r (updateAt (k # ks) g t)"
    by (simp add: t setFields_def)
  then show ?case
    by blast
qed

text \<open>
  The toggle on the store. Let the object at \<open>r0\<close> represent the tree \<open>t\<close>. After the
  toggle every object that existed before is as it was, \<open>r0\<close> still represents
  \<open>t\<close>, and the address returned represents the tree that \<open>toggleNodeExpansion\<close>
  returns on values.
\<close>

lemma toggleNodeExpansionInStore_fresh:
  assumes "represents h r0 t" and "toggleNodeExpansionInStore h t nodeId = (clone, h')"
  shows "take (length h) h' = h \<and> represents h' r0 t \<and>
         represents h' clone (toggleNodeExpansion t nodeId)"
proof -
  obtain c h1 where al: "allocTree (jsonClone t) h = (c, h1)"
    by (cases "allocTree (jsonClone t) h")
  from allocTree_copied(1) [OF al] have cp: "copied h1 (length h) c (jsonClone t)"
    and pre: "take (length h) h1 = h"
    by simp_all
  have flipfun: "(\<lambda>d. d\<lparr> n_expanded := \<not> n_expanded d \<rparr>) = flip"
    by (rule ext) (simp add: flip_def)
  have "take (length h) h' = h \<and> copied h' (length h) clone (toggleNodeExpansion t nodeId)"
  proof (cases "findNodeById (jsonClone t) nodeId")
    case None
    with assms(2) al cp pre show ?thesis
      by (simp add: toggleNodeExpansionInStore_def toggleNodeExpansion_def)
  next
    case (Some ref)
    from findNodeById_nodeAt [OF Some] obtain n where "nodeAt (jsonClone t) ref = Some n"
      by blast
    from copied_setFields [OF cp this, of flip] obtain a
      where a: "addrAt h1 c ref = Some a" "length h \<le> a"
        "copied (setFields flip a h1) (length h) c (updateAt ref flip (jsonClone t))"
      by blast
    from assms(2) al Some a(1) have res: "clone = c" "h' = setFields flip a h1"
      by (simp_all add: toggleNodeExpansionInStore_def setFields_def flip_def)
    from a(2) pre have "take (length h) (setFields flip a h1) = h"
      by (simp add: setFields_def)
    with a(3) res Some show ?thesis
      by (simp add: toggleNodeExpansion_def flipfun)
  qed
  then have pre': "take (length h) h' = h"
    and cl: "represents h' clone (toggleNodeExpansion t nodeId)"
    by (auto intro: copied_represents(1))
  from pre' have "h @ drop (length h) h' = h'"
    by (metis append_take_drop_id)
  moreover from assms(1) have "represents (h @ drop (length h) h') r0 t"
    by (rule represents_append)
  ultimately have "represents h' r0 t"
    by simp
  with pre' cl show ?thesis
    by simp
qed

text \<open>
  Claim C5, as the source has it. Let the id occur in the tree. Then \<open>findNodeById\<close>
  finds a node with that id, the target, and the tree that \<open>toggleNodeExpansion\<close>
  returns is the copy of the tree through JSON text with one flag changed:
  \<^item> the shape and every field other than \<^verbatim>\<open>expanded\<close> of every node are those of the
    copy: id, type, label and operator are as in the tree, \<^verbatim>\<open>value\<close> is the round
    trip of the value;
  \<^item> the \<^verbatim>\<open>expanded\<close> flag of the target is negated and that of every other node is
    as before;
  \<^item> a second toggle with the same id gives the copy of the tree.
  When JSON text can hold every value of the tree, the copy is the tree: then no
  field other than the flag of the target changes, and the second toggle gives back
  the tree. On objects: whenever an object of a store represents the tree, the toggle
  leaves every object of that store as it was, so that the object still represents
  the same tree, and returns a new object that represents the toggled tree.
\<close>

theorem toggleNodeExpansion_only_target:
  assumes "nodeId \<in> n_id ` fieldsOf ` set (flattenTree t)"
  shows "\<exists>ref target.
           findNodeById t nodeId = Some ref \<and> nodeAt t ref = Some target \<and>
           n_id (fieldsOf target) = nodeId \<and>
           forgetExpanded (toggleNodeExpansion t nodeId) = forgetExpanded (jsonClone t) \<and>
           (\<forall>r n. nodeAt t r = Some n \<longrightarrow>
              (\<exists>n'. nodeAt (toggleNodeExpansion t nodeId) r = Some n' \<and>
                    fieldsOf n' =
                      (cloneFields (fieldsOf n))\<lparr> n_expanded :=
                         (if r = ref then \<not> n_expanded (fieldsOf n) else n_expanded (fieldsOf n)) \<rparr> \<and>
                    n_id (fieldsOf n') = n_id (fieldsOf n) \<and>
                    n_type (fieldsOf n') = n_type (fieldsOf n) \<and>
                    n_label (fieldsOf n') = n_label (fieldsOf n) \<and>
                    n_value (fieldsOf n') = map_option jsonRoundTrip (n_value (fieldsOf n)))) \<and>
           toggleNodeExpansion (toggleNodeExpansion t nodeId) nodeId = jsonClone t \<and>
           (jsonSafe t \<longrightarrow>
              forgetExpanded (toggleNodeExpansion t nodeId) = forgetExpanded t \<and>
              (\<forall>r n. nodeAt t r = Some n \<longrightarrow>
                 (\<exists>n'. nodeAt (toggleNodeExpansion t nodeId) r = Some n' \<and>
                       fieldsOf n' =
                         (if r = ref then (fieldsOf n)\<lparr> n_expanded := \<not> n_expanded (fieldsOf n) \<rparr>
                          else fieldsOf n))) \<and>
              toggleNodeExpansion (toggleNodeExpansion t nodeId) nodeId = t) \<and>
           (\<forall>h r0 clone h'.
              represents h r0 t \<and> toggleNodeExpansionInStore h t nodeId = (clone, h') \<longrightarrow>
              take (length h) h' = h \<and> represents h' r0 t \<and>
              represents h' clone (toggleNodeExpansion t nodeId))"
proof -
  from assms obtain ref where ref: "findNodeById t nodeId = Some ref"
    using findNodeById_None [of t nodeId] by auto
  from findNodeById_nodeAt [OF ref] obtain target
    where target: "nodeAt t ref = Some target" "n_id (fieldsOf target) = nodeId"
    by blast
  have flipfun: "(\<lambda>d. d\<lparr> n_expanded := \<not> n_expanded d \<rparr>) = flip"
    by (rule ext) (simp add: flip_def)
  have tog: "toggleNodeExpansion t nodeId = updateAt ref flip (jsonClone t)"
    by (simp add: toggleNodeExpansion_def findNodeById_jsonClone ref flipfun)
  have same: "forgetExpanded (toggleNodeExpansion t nodeId) = forgetExpanded (jsonClone t)"
    unfolding tog forgetExpanded_def by (rule mapFields_updateAt) (simp add: flip_def)
  have flags: "\<exists>n'. nodeAt (toggleNodeExpansion t nodeId) r = Some n' \<and>
                 fieldsOf n' =
                   (cloneFields (fieldsOf n))\<lparr> n_expanded :=
                      (if r = ref then \<not> n_expanded (fieldsOf n) else n_expanded (fieldsOf n)) \<rparr> \<and>
                 n_id (fieldsOf n') = n_id (fieldsOf n) \<and>
                 n_type (fieldsOf n') = n_type (fieldsOf n) \<and>
                 n_label (fieldsOf n') = n_label (fieldsOf n) \<and>
                 n_value (fieldsOf n') = map_option jsonRoundTrip (n_value (fieldsOf n))"
    if at: "nodeAt t r = Some n" for r n
  proof -
    from at have "nodeAt (jsonClone t) r = Some (jsonClone n)"
      by (simp add: jsonClone_mapFields nodeAt_mapFields)
    from nodeAt_updateAt [OF this, of ref flip] obtain n'
      where n': "nodeAt (updateAt ref flip (jsonClone t)) r = Some n'"
        "fieldsOf n' = (if r = ref then flip (fieldsOf (jsonClone n)) else fieldsOf (jsonClone n))"
      by blast
    have "fieldsOf (jsonClone n) = cloneFields (fieldsOf n)"
      by (cases n) simp
    with n' show ?thesis
      by (auto simp: tog flip_def cloneFields_def)
  qed
  have again: "findNodeById (updateAt ref flip (jsonClone t)) nodeId = Some ref"
    using ref by (simp add: findNodeById_updateAt findNodeById_jsonClone flip_def)
  have "toggleNodeExpansion (updateAt ref flip (jsonClone t)) nodeId =
          updateAt ref (flip \<circ> flip) (jsonClone t)"
    by (simp add: toggleNodeExpansion_def jsonClone_updateAt_flip jsonClone_idem again flipfun
          updateAt_twice)
  also have "\<dots> = jsonClone t"
    by (rule updateAt_ident) (simp add: flip_def)
  finally have twice: "toggleNodeExpansion (toggleNodeExpansion t nodeId) nodeId = jsonClone t"
    by (simp add: tog)
  have safe: "forgetExpanded (toggleNodeExpansion t nodeId) = forgetExpanded t \<and>
              (\<forall>r n. nodeAt t r = Some n \<longrightarrow>
                 (\<exists>n'. nodeAt (toggleNodeExpansion t nodeId) r = Some n' \<and>
                       fieldsOf n' =
                         (if r = ref then (fieldsOf n)\<lparr> n_expanded := \<not> n_expanded (fieldsOf n) \<rparr>
                          else fieldsOf n))) \<and>
              toggleNodeExpansion (toggleNodeExpansion t nodeId) nodeId = t"
    if "jsonSafe t"
  proof -
    from that have id: "jsonClone t = t"
      by (rule jsonSafe_jsonClone)
    have "\<exists>n'. nodeAt (toggleNodeExpansion t nodeId) r = Some n' \<and>
               fieldsOf n' =
                 (if r = ref then (fieldsOf n)\<lparr> n_expanded := \<not> n_expanded (fieldsOf n) \<rparr>
                  else fieldsOf n)"
      if "nodeAt t r = Some n" for r n
      using nodeAt_updateAt [OF that, of ref flip] by (auto simp: tog id flip_def)
    with same twice id show ?thesis
      by simp
  qed
  have objects: "take (length h) h' = h \<and> represents h' r0 t \<and>
                 represents h' clone (toggleNodeExpansion t nodeId)"
    if "represents h r0 t \<and> toggleNodeExpansionInStore h t nodeId = (clone, h')" for h r0 clone h'
    using that toggleNodeExpansionInStore_fresh [of h r0 t nodeId clone h'] by blast
  from ref target same flags twice safe objects show ?thesis
    by blast
qed

theorem toggleNodeExpansion_only_target_witness:
  "''node-3'' \<in> n_id ` fieldsOf ` set (flattenTree familyTree) \<and>
   findNodeById familyTree ''node-3'' = Some [1] \<and>
   jsonSafe familyTree \<and>
   forgetExpanded (toggleNodeExpansion familyTree ''node-3'') = forgetExpanded familyTree \<and>
   toggleNodeExpansion (toggleNodeExpansion familyTree ''node-3'') ''node-3'' = familyTree \<and>
   represents familyStore familyRoot familyTree \<and>
   take (length familyStore) (snd (toggleNodeExpansionInStore familyStore familyTree ''node-3''))
     = familyStore \<and>
   represents (snd (toggleNodeExpansionInStore familyStore familyTree ''node-3'')) familyRoot
     familyTree"
proof -
  have mem: "''node-3'' \<in> n_id ` fieldsOf ` set (flattenTree familyTree)"
    by (simp add: familyTree_def nodeLiteral_def)
  have found: "findNodeById familyTree ''node-3'' = Some [1]"
    by (simp add: familyTree_def nodeLiteral_def)
  have safe: "jsonSafe familyTree"
    by (simp add: familyTree_def nodeLiteral_def safeFields_def)
  have "allocTree familyTree [] = (familyRoot, familyStore)"
    by (simp add: familyRoot_def familyStore_def)
  from allocTree_copied(1) [OF this] have rep: "represents familyStore familyRoot familyTree"
    by (auto intro: copied_represents(1))
  obtain clone h' where run: "toggleNodeExpansionInStore familyStore familyTree ''node-3'' = (clone, h')"
    by (cases "toggleNodeExpansionInStore familyStore familyTree ''node-3''")
  from toggleNodeExpansion_only_target [OF mem] obtain ref target
    where whenSafe: "jsonSafe familyTree \<longrightarrow>
              forgetExpanded (toggleNodeExpansion familyTree ''node-3'') = forgetExpanded familyTree \<and>
              (\<forall>r n. nodeAt familyTree r = Some n \<longrightarrow>
                 (\<exists>n'. nodeAt (toggleNodeExpansion familyTree ''node-3'') r = Some n' \<and>
                       fieldsOf n' =
                         (if r = ref then (fieldsOf n)\<lparr> n_expanded := \<not> n_expanded (fieldsOf n) \<rparr>
                          else fieldsOf n))) \<and>
              toggleNodeExpansion (toggleNodeExpansion familyTree ''node-3'') ''node-3'' = familyTree"
      and objects: "\<forall>h r0 clone h'.
              represents h r0 familyTree \<and>
              toggleNodeExpansionInStore h familyTree ''node-3'' = (clone, h') \<longrightarrow>
              take (length h) h' = h \<and> represents h' r0 familyTree \<and>
              represents h' clone (toggleNodeExpansion familyTree ''node-3'')"
    by blast
  from whenSafe safe
  have same: "forgetExpanded (toggleNodeExpansion familyTree ''node-3'') = forgetExpanded familyTree"
    and twice: "toggleNodeExpansion (toggleNodeExpansion familyTree ''node-3'') ''node-3'' = familyTree"
    by blast+
  from objects rep run have "take (length familyStore) h' = familyStore"
    and "represents h' familyRoot familyTree"
    by blast+
  with mem found safe same twice rep run show ?thesis
    by simp
qed

text \<open>
  Claim C5, as stated, fails: in the tree the parser builds for a rule with the number
  \<^verbatim>\<open>Infinity\<close>, the toggle of the root changes the \<^verbatim>\<open>value\<close> of the root, where
  \<^verbatim>\<open>null\<close> takes the place of the number, and a second toggle does not give the
  tree back.
\<close>

theorem toggleNodeExpansion_changes_value:
  "parseRuleToTree 1 infRule None 0 [] 0 = Some (infTree, 1) \<and>
   ''node-1'' \<in> n_id ` fieldsOf ` set (flattenTree infTree) \<and>
   n_value (fieldsOf (toggleNodeExpansion infTree ''node-1'')) \<noteq> n_value (fieldsOf infTree) \<and>
   toggleNodeExpansion (toggleNodeExpansion infTree ''node-1'') ''node-1'' \<noteq> infTree"
proof -
  have "''node-1'' \<in> n_id ` fieldsOf ` set (flattenTree infTree)"
    by (simp add: infTree_def nodeLiteral_def)
  moreover have "n_value (fieldsOf (toggleNodeExpansion infTree ''node-1'')) \<noteq> n_value (fieldsOf infTree)"
    by (simp add: infTree_def infRule_def toggleNodeExpansion_def nodeLiteral_def cloneFields_def)
  moreover have "toggleNodeExpansion (toggleNodeExpansion infTree ''node-1'') ''node-1'' \<noteq> infTree"
    by (simp add: infTree_def infRule_def toggleNodeExpansion_def nodeLiteral_def cloneFields_def)
  ultimately show ?thesis
    using infTree_built by simp
qed

section \<open>Properties of the Layout Engine\<close>

lemma calculateNodeWidth_pos: "0 < calculateNodeWidth lbl"
  by (simp add: calculateNodeWidth_def Let_def MIN_NODE_WIDTH_def MAX_NODE_WIDTH_def
        min_def max_def)

lemma hasWidths_assignNodeWidths: "hasWidths (assignNodeWidths t)"
  by (induction t) (simp add: calculateNodeWidth_pos list_all_iff)

lemma subW_Some [simp]: "n_subtreeWidth d = Some s \<Longrightarrow> subW (TreeNode d cs) = s"
  by (simp add: subW_def numOr0_def)

lemma rowWidth_Nil: "rowWidth hs [] = - hs"
  by (simp add: rowWidth_def)

lemma rowWidth_Cons: "rowWidth hs (c # cs) = subW c + hs + rowWidth hs cs"
  by (simp add: rowWidth_def algebra_simps)

lemma calculateSubtreeWidths_sized:
  "hasWidths t \<Longrightarrow> calculateSubtreeWidths t cfg = (t', s) \<Longrightarrow>
     sized (horizontalSpacing cfg) t' \<and> subW t' = s"
  "list_all hasWidths cs \<Longrightarrow> reduceSubtreeWidths cs cfg acc = (cs', tot) \<Longrightarrow>
     list_all (sized (horizontalSpacing cfg)) cs' \<and> length cs' = length cs \<and>
     tot = acc + horizontalSpacing cfg + rowWidth (horizontalSpacing cfg) cs'"
proof (induction t cfg and cs cfg acc arbitrary: t' s and cs' tot
       rule: calculateSubtreeWidths_reduceSubtreeWidths.induct)
  case (1 d cs cfg)
  from "1.prems"(1) obtain w where w: "n_width d = Some w" "0 < w" and cs: "list_all hasWidths cs"
    by (auto split: option.splits)
  then have nw: "orElse (n_width d) (nodeWidth cfg) = w"
    by (simp add: orElse_def)
  show ?case
  proof (cases "\<not> n_expanded d \<or> length cs = 0")
    case True
    with "1.prems"(2) w nw show ?thesis
      by (auto simp: Let_def)
  next
    case False
    obtain cs1 tot1 where r: "reduceSubtreeWidths cs cfg (- horizontalSpacing cfg) = (cs1, tot1)"
      by (cases "reduceSubtreeWidths cs cfg (- horizontalSpacing cfg)")
    from "1.IH" [OF refl False cs r]
    have ih: "list_all (sized (horizontalSpacing cfg)) cs1" "length cs1 = length cs"
      "tot1 = rowWidth (horizontalSpacing cfg) cs1"
      by simp_all
    from "1.prems"(2) False r nw
    have t': "t' = TreeNode (d\<lparr> n_subtreeWidth := Some (max w tot1) \<rparr>) cs1" and s: "s = max w tot1"
      by (auto simp: Let_def)
    from False ih(2) have "cs1 \<noteq> []" by auto
    with w ih show ?thesis
      by (simp add: t' s)
  qed
next
  case (2 cfg acc)
  then show ?case
    by (simp add: rowWidth_Nil)
next
  case (3 child rest cfg acc)
  from "3.prems"(1) have hc: "hasWidths child" and hr: "list_all hasWidths rest"
    by simp_all
  obtain c1 w where c: "calculateSubtreeWidths child cfg = (c1, w)"
    by (cases "calculateSubtreeWidths child cfg")
  obtain r1 tot1
    where r: "reduceSubtreeWidths rest cfg (acc + w + horizontalSpacing cfg) = (r1, tot1)"
    by (cases "reduceSubtreeWidths rest cfg (acc + w + horizontalSpacing cfg)")
  from "3.IH"(1) [OF hc c] have ihc: "sized (horizontalSpacing cfg) c1" "subW c1 = w"
    by simp_all
  from "3.IH"(2) [OF c [symmetric] refl hr r]
  have ihr: "list_all (sized (horizontalSpacing cfg)) r1" "length r1 = length rest"
    "tot1 = acc + w + horizontalSpacing cfg + horizontalSpacing cfg + rowWidth (horizontalSpacing cfg) r1"
    by simp_all
  from "3.prems"(2) c r have "cs' = c1 # r1" "tot = tot1"
    by (simp_all add: Let_def)
  with ihc ihr show ?case
    by (simp add: rowWidth_Cons)
qed

lemma sized_subW_pos: "sized hs c \<Longrightarrow> 0 < subW c"
  by (cases c) (auto split: option.splits)

lemma rowWidth_ge: "0 \<le> hs \<Longrightarrow> list_all (sized hs) cs \<Longrightarrow> - hs \<le> rowWidth hs cs"
proof (induction cs)
  case Nil
  show ?case by (simp add: rowWidth_Nil)
next
  case (Cons c cs)
  from Cons.prems have "0 < subW c" by (auto intro: sized_subW_pos)
  with Cons show ?case by (simp add: rowWidth_Cons)
qed

lemma assignVerticalPositions_placed:
  "0 \<le> horizontalSpacing cfg \<Longrightarrow> sized (horizontalSpacing cfg) t \<Longrightarrow>
     placed cfg x y (assignVerticalPositions t x y cfg) \<and>
     subW (assignVerticalPositions t x y cfg) = subW t"
  "0 \<le> horizontalSpacing cfg \<Longrightarrow> list_all (sized (horizontalSpacing cfg)) cs \<Longrightarrow>
     (cs \<noteq> [] \<longrightarrow> childX + rowWidth (horizontalSpacing cfg) cs \<le> bound) \<Longrightarrow>
     placedRow cfg childX childY bound (placeBelow cs childX childY cfg) \<and>
     length (placeBelow cs childX childY cfg) = length cs"
proof (induction t x y cfg and cs childX childY cfg arbitrary: and bound
       rule: assignVerticalPositions_placeBelow.induct)
  case (1 d cs x y cfg)
  from "1.prems"(2) obtain w s where w: "n_width d = Some w" "0 < w"
    and s: "n_subtreeWidth d = Some s" "w \<le> s"
    and kids: "n_expanded d \<and> cs \<noteq> [] \<longrightarrow>
                 rowWidth (horizontalSpacing cfg) cs \<le> s \<and> list_all (sized (horizontalSpacing cfg)) cs"
    by (auto split: option.splits)
  from w s have nw: "orElse (n_width d) (nodeWidth cfg) = w"
    and sw: "orElse (n_subtreeWidth d) w = s"
    by (auto simp: orElse_def)
  show ?case
  proof (cases "\<not> n_expanded d \<or> length cs = 0")
    case True
    with w s nw sw show ?thesis
      by (auto simp: Let_def)
  next
    case False
    with kids have row: "rowWidth (horizontalSpacing cfg) cs \<le> s"
      and all: "list_all (sized (horizontalSpacing cfg)) cs"
      by auto
    from row have "cs \<noteq> [] \<longrightarrow> x + rowWidth (horizontalSpacing cfg) cs \<le> x + s"
      by simp
    from "1.IH" [OF refl refl refl False "1.prems"(1) all this]
    have "placedRow cfg x (y + nodeHeight cfg + verticalSpacing cfg) (x + s)
            (placeBelow cs x (y + nodeHeight cfg + verticalSpacing cfg) cfg)"
      and "length (placeBelow cs x (y + nodeHeight cfg + verticalSpacing cfg) cfg) = length cs"
      by (simp_all add: nw sw)
    with False w s nw sw show ?thesis
      by (auto simp: Let_def)
  qed
next
  case (2 childX childY cfg)
  show ?case by simp
next
  case (3 child rest childX childY cfg)
  let ?hs = "horizontalSpacing cfg"
  from "3.prems"(2) have sc: "sized ?hs child" and sr: "list_all (sized ?hs) rest"
    by simp_all
  from sc have pos: "0 < subW child"
    by (rule sized_subW_pos)
  from sc have cw: "orElse (n_subtreeWidth (fieldsOf child))
                      (orElse (n_width (fieldsOf child)) (nodeWidth cfg)) = subW child"
    by (cases child) (auto simp: orElse_def split: option.splits)
  from "3.prems"(3) have le: "childX + subW child + ?hs + rowWidth ?hs rest \<le> bound"
    by (simp add: rowWidth_Cons algebra_simps)
  from rowWidth_ge [OF "3.prems"(1) sr] le have head: "childX + subW child \<le> bound"
    by simp
  from "3.IH"(1) [OF refl "3.prems"(1) sc]
  have c: "placed cfg childX childY (assignVerticalPositions child childX childY cfg)"
    "subW (assignVerticalPositions child childX childY cfg) = subW child"
    by simp_all
  from le have "rest \<noteq> [] \<longrightarrow> (childX + subW child + ?hs) + rowWidth ?hs rest \<le> bound"
    by simp
  from "3.IH"(2) [OF refl "3.prems"(1) sr, of bound] this cw
  have r: "placedRow cfg (childX + subW child + ?hs) childY bound
             (placeBelow rest (childX + subW child + ?hs) childY cfg)"
    "length (placeBelow rest (childX + subW child + ?hs) childY cfg) = length rest"
    by simp_all
  from c r head cw show ?case
    by (simp add: Let_def)
qed

lemma placed_geometry:
  "placed cfg x y t \<Longrightarrow> spanLeft t = x \<and> spanRight t = x + subW t \<and> nodeTop t = y \<and> 0 < subW t"
  by (cases t)
     (auto simp: spanLeft_def spanRight_def nodeLeft_def nodeTop_def subW_def numOr0_def
           split: option.splits)

lemma placed_within:
  "placed cfg x y t \<Longrightarrow> 0 \<le> horizontalSpacing cfg \<Longrightarrow> a \<in> set (collectNodes t) \<Longrightarrow>
     x \<le> nodeLeft a \<and> nodeRight a \<le> x + subW t"
  "placedRow cfg cx cy bound cs \<Longrightarrow> 0 \<le> horizontalSpacing cfg \<Longrightarrow> c \<in> set cs \<Longrightarrow>
     a \<in> set (collectNodes c) \<Longrightarrow> cx \<le> nodeLeft a \<and> nodeRight a \<le> bound"
proof (induction cfg x y t and cfg cx cy bound cs arbitrary: a and a c rule: placed_placedRow.induct)
  case (1 cfg x y d cs)
  from "1.prems"(1) obtain w s where w: "n_width d = Some w" "0 < w"
    and s: "n_subtreeWidth d = Some s" "w \<le> s"
    and xy: "n_x d = Some (x + (s - w) / 2)"
    and kids: "n_expanded d \<and> cs \<noteq> [] \<longrightarrow>
                 placedRow cfg x (y + nodeHeight cfg + verticalSpacing cfg) (x + s) cs"
    by (auto split: option.splits)
  from w s xy have self: "x \<le> nodeLeft (TreeNode d cs) \<and> nodeRight (TreeNode d cs) \<le> x + s"
    by (simp add: nodeLeft_def nodeRight_def numOr0_def field_simps)
  from "1.prems"(3) consider "a = TreeNode d cs"
    | c where "n_expanded d" "c \<in> set cs" "a \<in> set (collectNodes c)"
    by (auto split: if_splits)
  then show ?case
  proof cases
    case 1
    with self s show ?thesis by simp
  next
    case 2
    then have ne: "n_expanded d \<and> cs \<noteq> []" by auto
    with kids have row: "placedRow cfg x (y + nodeHeight cfg + verticalSpacing cfg) (x + s) cs"
      by simp
    from "1.IH" [OF w(1) s(1) ne row "1.prems"(2) 2(2,3)] s show ?thesis
      by simp
  qed
next
  case (2 cfg cx cy bound)
  then show ?case by simp
next
  case (3 cfg cx cy bound c' cs)
  from "3.prems"(1) have head: "placed cfg cx cy c'" "cx + subW c' \<le> bound"
    and tail: "placedRow cfg (cx + subW c' + horizontalSpacing cfg) cy bound cs"
    by simp_all
  from placed_geometry [OF head(1)] have pos: "0 < subW c'" by simp
  from "3.prems"(3) consider "c = c'" | "c \<in> set cs" by auto
  then show ?case
  proof cases
    case 1
    from "3.IH"(1) [OF head(1) "3.prems"(2)] "3.prems"(4) 1 head(2) show ?thesis
      by fastforce
  next
    case 2
    from "3.IH"(2) [OF tail "3.prems"(2) 2 "3.prems"(4)] pos "3.prems"(2) show ?thesis
      by simp
  qed
qed

lemma placedRow_member:
  "placedRow cfg cx cy bound cs \<Longrightarrow> 0 \<le> horizontalSpacing cfg \<Longrightarrow> c \<in> set cs \<Longrightarrow>
     \<exists>x'. placed cfg x' cy c \<and> cx \<le> x'"
proof (induction cs arbitrary: cx)
  case Nil
  then show ?case by simp
next
  case (Cons c' cs)
  from Cons.prems(1) have head: "placed cfg cx cy c'"
    and tail: "placedRow cfg (cx + subW c' + horizontalSpacing cfg) cy bound cs"
    by simp_all
  from placed_geometry [OF head] have pos: "0 < subW c'" by simp
  from Cons.prems(3) consider "c = c'" | "c \<in> set cs" by auto
  then show ?case
  proof cases
    case 1
    with head show ?thesis by auto
  next
    case 2
    from Cons.IH [OF tail Cons.prems(2) 2] obtain x'
      where "placed cfg x' cy c" "cx + subW c' + horizontalSpacing cfg \<le> x'"
      by blast
    with pos Cons.prems(2) have "placed cfg x' cy c \<and> cx \<le> x'"
      by simp
    then show ?thesis by blast
  qed
qed

lemma placedRow_separate:
  "placedRow cfg cx cy bound cs \<Longrightarrow> 0 \<le> horizontalSpacing cfg \<Longrightarrow> i < j \<Longrightarrow> j < length cs \<Longrightarrow>
     spanRight (cs ! i) + horizontalSpacing cfg \<le> spanLeft (cs ! j)"
proof (induction cs arbitrary: cx i j)
  case Nil
  then show ?case by simp
next
  case (Cons c' cs)
  from Cons.prems(1) have head: "placed cfg cx cy c'"
    and tail: "placedRow cfg (cx + subW c' + horizontalSpacing cfg) cy bound cs"
    by simp_all
  from Cons.prems(3) obtain j' where j: "j = Suc j'"
    by (cases j) auto
  with Cons.prems(4) have j': "j' < length cs" by simp
  show ?case
  proof (cases i)
    case 0
    from j' have "cs ! j' \<in> set cs" by simp
    from placedRow_member [OF tail Cons.prems(2) this] obtain x'
      where "placed cfg x' cy (cs ! j')" "cx + subW c' + horizontalSpacing cfg \<le> x'"
      by blast
    with placed_geometry [OF head] placed_geometry [of cfg x' cy "cs ! j'"] 0 j show ?thesis
      by simp
  next
    case (Suc i')
    with Cons.prems(3) j have "i' < j'" by simp
    from Cons.IH [OF tail Cons.prems(2) this j'] Suc j show ?thesis
      by simp
  qed
qed

lemma placed_visible:
  "placed cfg x y t \<Longrightarrow> p \<in> set (collectNodes t) \<Longrightarrow> \<exists>x' y'. placed cfg x' y' p"
  "placedRow cfg cx cy bound cs \<Longrightarrow> c \<in> set cs \<Longrightarrow> p \<in> set (collectNodes c) \<Longrightarrow>
     \<exists>x' y'. placed cfg x' y' p"
proof (induction cfg x y t and cfg cx cy bound cs arbitrary: p and p c rule: placed_placedRow.induct)
  case (1 cfg x y d cs)
  from "1.prems"(2) consider "p = TreeNode d cs"
    | c where "n_expanded d" "c \<in> set cs" "p \<in> set (collectNodes c)"
    by (auto split: if_splits)
  then show ?case
  proof cases
    case 1
    with "1.prems"(1) show ?thesis by blast
  next
    case 2
    then have ne: "n_expanded d \<and> cs \<noteq> []" by auto
    from "1.prems"(1) obtain w s where ws: "n_width d = Some w" "n_subtreeWidth d = Some s"
      by (auto split: option.splits)
    with "1.prems"(1) ne
    have row: "placedRow cfg x (y + nodeHeight cfg + verticalSpacing cfg) (x + s) cs"
      by auto
    from "1.IH" [OF ws ne row 2(2,3)] show ?thesis .
  qed
next
  case (2 cfg cx cy bound)
  then show ?case by simp
next
  case (3 cfg cx cy bound c' cs)
  from "3.prems"(1) have head: "placed cfg cx cy c'"
    and tail: "placedRow cfg (cx + subW c' + horizontalSpacing cfg) cy bound cs"
    by simp_all
  from "3.prems"(2) consider "c = c'" | "c \<in> set cs" by auto
  then show ?case
  proof cases
    case 1
    with "3.IH"(1) [OF head] "3.prems"(3) show ?thesis by blast
  next
    case 2
    from "3.IH"(2) [OF tail 2 "3.prems"(3)] show ?thesis .
  qed
qed

lemma calculateTreeLayout_placed:
  assumes "orientation (withDefaults config) = Vertical"
    and "0 \<le> horizontalSpacing (withDefaults config)"
  shows "\<exists>t. nodes (calculateTreeLayout tree config) = collectNodes t \<and>
             placed (withDefaults config) 0 0 t"
proof -
  let ?cfg = "withDefaults config"
  obtain t2 s where t2: "calculateSubtreeWidths (assignNodeWidths tree) ?cfg = (t2, s)"
    by (cases "calculateSubtreeWidths (assignNodeWidths tree) ?cfg")
  from calculateSubtreeWidths_sized(1) [OF hasWidths_assignNodeWidths t2]
  have "sized (horizontalSpacing ?cfg) t2"
    by simp
  from assignVerticalPositions_placed(1) [OF assms(2) this]
  have "placed ?cfg 0 0 (assignVerticalPositions t2 0 0 ?cfg)"
    by simp
  moreover have "nodes (calculateTreeLayout tree config) =
                   collectNodes (assignVerticalPositions t2 0 0 ?cfg)"
    using assms(1) t2 by (simp add: calculateTreeLayout_def Let_def split: prod.split)
  ultimately show ?thesis
    by blast
qed

text \<open>
  Claim C4. Let the layout be vertical, with a horizontal spacing that is not negative
  and a row pitch (node height plus vertical spacing) that is positive, as in the
  default configuration. Then for every visible node of the result
  \<^item> the node has its coordinates, and its box and the boxes of all its visible
    descendants lie within the horizontal span allotted to its subtree;
  \<^item> if the node is expanded, the spans of any two of its children are apart by at
    least the horizontal spacing, the one to the left ending before the other
    begins, and so are any two boxes taken from the two subtrees;
  \<^item> if the node is expanded, each of its children lies strictly below it.
\<close>

theorem calculateTreeLayout_no_overlap:
  assumes "orientation (withDefaults config) = Vertical"
    and "0 \<le> horizontalSpacing (withDefaults config)"
    and "0 < nodeHeight (withDefaults config) + verticalSpacing (withDefaults config)"
    and "TreeNode d cs \<in> set (nodes (calculateTreeLayout tree config))"
  shows "n_x d \<noteq> None \<and> n_y d \<noteq> None \<and>
         (\<forall>a \<in> set (collectNodes (TreeNode d cs)).
            spanLeft (TreeNode d cs) \<le> nodeLeft a \<and> nodeRight a \<le> spanRight (TreeNode d cs)) \<and>
         (n_expanded d \<longrightarrow>
            (\<forall>i j. i < j \<and> j < length cs \<longrightarrow>
               spanRight (cs ! i) + horizontalSpacing (withDefaults config) \<le> spanLeft (cs ! j) \<and>
               (\<forall>a \<in> set (collectNodes (cs ! i)). \<forall>b \<in> set (collectNodes (cs ! j)).
                  nodeRight a + horizontalSpacing (withDefaults config) \<le> nodeLeft b)) \<and>
            (\<forall>c \<in> set cs. nodeTop (TreeNode d cs) < nodeTop c))"
proof -
  let ?cfg = "withDefaults config"
  let ?hs = "horizontalSpacing ?cfg"
  let ?p = "TreeNode d cs"
  from calculateTreeLayout_placed [OF assms(1,2), of tree] assms(4) obtain t
    where "?p \<in> set (collectNodes t)" "placed ?cfg 0 0 t"
    by auto
  from placed_visible(1) [OF this(2,1)] obtain x y where p: "placed ?cfg x y ?p"
    by blast
  note geo = placed_geometry [OF p]
  from p have coords: "n_x d \<noteq> None \<and> n_y d \<noteq> None"
    by (auto split: option.splits)
  have inside: "spanLeft ?p \<le> nodeLeft a \<and> nodeRight a \<le> spanRight ?p"
    if "a \<in> set (collectNodes ?p)" for a
    using placed_within(1) [OF p assms(2) that] geo by simp
  have kids: "(\<forall>i j. i < j \<and> j < length cs \<longrightarrow>
               spanRight (cs ! i) + ?hs \<le> spanLeft (cs ! j) \<and>
               (\<forall>a \<in> set (collectNodes (cs ! i)). \<forall>b \<in> set (collectNodes (cs ! j)).
                  nodeRight a + ?hs \<le> nodeLeft b)) \<and>
              (\<forall>c \<in> set cs. nodeTop ?p < nodeTop c)"
    if ex: "n_expanded d"
  proof (cases "cs = []")
    case True
    then show ?thesis by simp
  next
    case False
    from p obtain s where "n_subtreeWidth d = Some s"
      by (auto split: option.splits)
    with p ex False
    have row: "placedRow ?cfg x (y + nodeHeight ?cfg + verticalSpacing ?cfg) (x + s) cs"
      by (auto split: option.splits)
    have sep: "spanRight (cs ! i) + ?hs \<le> spanLeft (cs ! j)" if "i < j" "j < length cs" for i j
      using placedRow_separate [OF row assms(2) that] .
    have boxes: "nodeRight a + ?hs \<le> nodeLeft b"
      if ij: "i < j" "j < length cs"
        and a: "a \<in> set (collectNodes (cs ! i))" and b: "b \<in> set (collectNodes (cs ! j))"
      for i j a b
    proof -
      from ij have mem: "cs ! i \<in> set cs" "cs ! j \<in> set cs"
        by simp_all
      from placedRow_member [OF row assms(2) mem(1)] obtain xi
        where pi: "placed ?cfg xi (y + nodeHeight ?cfg + verticalSpacing ?cfg) (cs ! i)"
        by blast
      from placedRow_member [OF row assms(2) mem(2)] obtain xj
        where pj: "placed ?cfg xj (y + nodeHeight ?cfg + verticalSpacing ?cfg) (cs ! j)"
        by blast
      from placed_within(1) [OF pi assms(2) a] placed_geometry [OF pi]
      have "nodeRight a \<le> spanRight (cs ! i)"
        by simp
      moreover from placed_within(1) [OF pj assms(2) b] placed_geometry [OF pj]
      have "spanLeft (cs ! j) \<le> nodeLeft b"
        by simp
      ultimately show ?thesis
        using sep [OF ij] by simp
    qed
    have below: "nodeTop ?p < nodeTop c" if "c \<in> set cs" for c
    proof -
      from placedRow_member [OF row assms(2) that] obtain x'
        where "placed ?cfg x' (y + nodeHeight ?cfg + verticalSpacing ?cfg) c"
        by blast
      from placed_geometry [OF this] geo assms(3) show ?thesis
        by simp
    qed
    from sep boxes below show ?thesis
      by blast
  qed
  from coords inside kids show ?thesis
    by blast
qed

lemma collectNodes_self: "t \<in> set (collectNodes t)"
  by (cases t) simp

lemma rowTree_layout:
  "nodes (calculateTreeLayout rowTree noConfig) = collectNodes rowTreeLaid"
  by (simp add: calculateTreeLayout_def rowTree_def rowTreeLaid_def nodeLiteral_def noConfig_def
        withDefaults_def overDefault_def DEFAULT_CONFIG_def calculateNodeWidth_def CHAR_WIDTH_def
        NODE_PADDING_def MIN_NODE_WIDTH_def MAX_NODE_WIDTH_def orElse_def calculateDimensions_def
        Let_def)

theorem calculateTreeLayout_no_overlap_witness:
  "orientation (withDefaults noConfig) = Vertical \<and>
   0 \<le> horizontalSpacing (withDefaults noConfig) \<and>
   0 < nodeHeight (withDefaults noConfig) + verticalSpacing (withDefaults noConfig) \<and>
   rowTreeLaid \<in> set (nodes (calculateTreeLayout rowTree noConfig)) \<and>
   n_expanded (fieldsOf rowTreeLaid) \<and>
   nodeTop rowTreeLaid < nodeTop (children rowTreeLaid ! 0) \<and>
   spanRight (children rowTreeLaid ! 0) + horizontalSpacing (withDefaults noConfig)
     \<le> spanLeft (children rowTreeLaid ! 1) \<and>
   spanRight (children rowTreeLaid ! 1) + horizontalSpacing (withDefaults noConfig)
     \<le> spanLeft (children rowTreeLaid ! 2)"
proof -
  have a1: "orientation (withDefaults noConfig) = Vertical"
    and a2: "0 \<le> horizontalSpacing (withDefaults noConfig)"
    and a3: "0 < nodeHeight (withDefaults noConfig) + verticalSpacing (withDefaults noConfig)"
    by (simp_all add: withDefaults_def noConfig_def overDefault_def DEFAULT_CONFIG_def)
  have a4: "TreeNode (fieldsOf rowTreeLaid) (children rowTreeLaid)
              \<in> set (nodes (calculateTreeLayout rowTree noConfig))"
    unfolding rowTree_layout by (simp add: collectNodes_self)
  have ex: "n_expanded (fieldsOf rowTreeLaid)"
    by (simp add: rowTreeLaid_def nodeLiteral_def)
  have len: "(0::nat) < 1 \<and> 1 < length (children rowTreeLaid)"
    "(1::nat) < 2 \<and> 2 < length (children rowTreeLaid)"
    by (simp_all add: rowTreeLaid_def)
  from calculateTreeLayout_no_overlap [OF a1 a2 a3 a4] ex
  have sep: "\<forall>i j. i < j \<and> j < length (children rowTreeLaid) \<longrightarrow>
               spanRight (children rowTreeLaid ! i) + horizontalSpacing (withDefaults noConfig)
                 \<le> spanLeft (children rowTreeLaid ! j) \<and>
               (\<forall>a \<in> set (collectNodes (children rowTreeLaid ! i)).
                  \<forall>b \<in> set (collectNodes (children rowTreeLaid ! j)).
                    nodeRight a + horizontalSpacing (withDefaults noConfig) \<le> nodeLeft b)"
    and below: "\<forall>c \<in> set (children rowTreeLaid). nodeTop rowTreeLaid < nodeTop c"
    by simp_all
  from sep len have "spanRight (children rowTreeLaid ! 0) + horizontalSpacing (withDefaults noConfig)
                       \<le> spanLeft (children rowTreeLaid ! 1)"
    and "spanRight (children rowTreeLaid ! 1) + horizontalSpacing (withDefaults noConfig)
           \<le> spanLeft (children rowTreeLaid ! 2)"
    by blast+
  moreover from below have "nodeTop rowTreeLaid < nodeTop (children rowTreeLaid ! 0)"
    by (simp add: rowTreeLaid_def)
  ultimately show ?thesis
    using a1 a2 a3 a4 ex by simp
qed

end
